theory Spec2Isabelle
  imports Complex_Main "HOL-Library.Word" "HOL-Library.Signed_Division" "HOL-Library.Multiset"
begin

section \<open>Machine values\<close>

text \<open>
  The program is C++ (src/main.cpp). An \<^verbatim>\<open>int\<close> is a 32-bit two's-complement word;
  \<open>+\<close> and \<open>-\<close> on words wrap around (signed overflow, undefined in C++, is read as the
  wrap-around of the hardware). The C++ quotient \<^verbatim>\<open>a / b\<close> of two ints truncates toward
  zero: \<open>sdiv\<close> on \<open>int\<close> is \<open>sgn k * sgn l * (\<bar>k\<bar> div \<bar>l\<bar>)\<close>.
\<close>

type_synonym c_int = "32 word"

type_synonym uchar = "8 word"

definition c_div :: "c_int \<Rightarrow> c_int \<Rightarrow> c_int" where
  "c_div a b = word_of_int (sint a sdiv sint b)"

text \<open>
  A \<^verbatim>\<open>double\<close> is a finite number, which is a real, or not: \<open>NonFinite\<close> stands for
  an infinity or a NaN, and for whatever is computed from one (a computation is not
  followed past its first infinity or NaN). The two zeros are one. The score of the
  matching primitive and the confidence, its product with 100, are kept as reals.
\<close>

datatype dbl = Finite real | NonFinite

text \<open>
  The arithmetic of the program on doubles rounds: \<open>fl x\<close> is the double nearest
  to the real \<open>x\<close> (IEEE 754 binary64: a significand of 53 bits, exponents from -1022
  to 1023, below them the subnormal numbers in steps of \<open>2 powi (- 1074)\<close>, ties to the
  even significand), and an infinity when the rounded value reaches \<open>2 ^ 1024\<close>.
  \<open>rne\<close> rounds to the nearest integer, ties to even; \<open>expo x\<close> is the exponent of
  the binade of \<open>x\<close>, found by searching downward from 1023 and not below -1022.
\<close>

definition rne :: "real \<Rightarrow> int" where
  "rne y =
     (let f = \<lfloor>y\<rfloor>
      in if y - of_int f < 1 / 2 then f
         else if 1 / 2 < y - of_int f then f + 1
         else if even f then f else f + 1)"

fun expo_from :: "nat \<Rightarrow> int \<Rightarrow> real \<Rightarrow> int" where
  "expo_from 0 e x = e"
| "expo_from (Suc n) e x = (if 2 powi e \<le> \<bar>x\<bar> then e else expo_from n (e - 1) x)"

definition expo :: "real \<Rightarrow> int" where
  "expo x = expo_from 2045 1023 x"

definition dbl_limit :: real where
  "dbl_limit = 2 ^ 1024"

definition fl :: "real \<Rightarrow> dbl" where
  "fl x =
     (let q = 2 powi (expo x - 52);
          y = q * of_int (rne (x / q))
      in if \<bar>y\<bar> < dbl_limit then Finite y else NonFinite)"

text \<open>
  The operations of C++ on two finite doubles: each is the exact result, rounded. A
  division by zero raises nothing; its result is an infinity or a NaN.
\<close>

definition dmul :: "real \<Rightarrow> real \<Rightarrow> dbl" where
  "dmul a b = fl (a * b)"

definition dsub :: "real \<Rightarrow> real \<Rightarrow> dbl" where
  "dsub a b = fl (a - b)"

definition ddiv :: "real \<Rightarrow> real \<Rightarrow> dbl" where
  "ddiv a b = (if b = 0 then NonFinite else fl (a / b))"

fun lift2 :: "(real \<Rightarrow> real \<Rightarrow> dbl) \<Rightarrow> dbl \<Rightarrow> dbl \<Rightarrow> dbl" where
  "lift2 f (Finite a) (Finite b) = f a b"
| "lift2 f NonFinite b = NonFinite"
| "lift2 f (Finite a) NonFinite = NonFinite"

text \<open>
  Exceptions that leave a function of the program: \<^verbatim>\<open>std::out_of_range\<close>
  (\<^verbatim>\<open>substr\<close>, \<^verbatim>\<open>stoi\<close>), \<^verbatim>\<open>std::invalid_argument\<close> (\<^verbatim>\<open>stoi\<close>),
  \<^verbatim>\<open>cv::Exception\<close> and \<^verbatim>\<open>std::filesystem::filesystem_error\<close>. None is caught
  outside \<^verbatim>\<open>create_folders\<close>.
\<close>

datatype exc = OutOfRange | InvalidArgument | CvError | FilesystemError

definition EXIT_SUCCESS :: c_int where
  "EXIT_SUCCESS = 0"

definition EXIT_FAILURE :: c_int where
  "EXIT_FAILURE = 1"

section \<open>Rasters: \<^verbatim>\<open>cv::Mat\<close> headers over a store of pixel buffers\<close>

text \<open>
  A \<^verbatim>\<open>cv::Mat\<close> is a header that points into a pixel buffer; several headers may share
  one buffer (a region of interest is a view, not a copy). The store is the list of
  the buffers allocated so far, addressed by position; a grayscale buffer is a list of
  rows of 8-bit pixels. Buffers are never removed from the store (the destructors of
  the program's local matrices are not modelled). \<^verbatim>\<open>rows\<close> and \<^verbatim>\<open>cols\<close>, ints that
  are never negative, are naturals.
\<close>

type_synonym raster = "uchar list list"

record Mat =
  data :: "nat option"
  rows :: nat
  cols :: nat
  org_y :: nat
  org_x :: nat

definition Mat_none :: Mat where
  "Mat_none = \<lparr>data = None, rows = 0, cols = 0, org_y = 0, org_x = 0\<rparr>"

text \<open>\<^verbatim>\<open>cv::Mat::empty()\<close>: no buffer, or no element.\<close>

definition Mat_empty :: "Mat \<Rightarrow> bool" where
  "Mat_empty m = (data m = None \<or> rows m * cols m = 0)"

text \<open>The pixels a header shows, read through the store.\<close>

definition pixels :: "raster list \<Rightarrow> Mat \<Rightarrow> raster" where
  "pixels h m =
     (case data m of
        None \<Rightarrow> []
      | Some a \<Rightarrow>
          if rows m * cols m = 0 then []
          else map (\<lambda>r. map (\<lambda>c. h ! a ! (org_y m + r) ! (org_x m + c)) [0..<cols m])
                 [0..<rows m])"

text \<open>A header refers to a buffer of the store (or to none).\<close>

definition Mat_in :: "raster list \<Rightarrow> Mat \<Rightarrow> bool" where
  "Mat_in h m = (case data m of None \<Rightarrow> True | Some a \<Rightarrow> a < length h)"

text \<open>
  \<^verbatim>\<open>src.copyTo(dst)\<close> for a fresh \<open>dst\<close>: an empty source releases \<open>dst\<close>; otherwise
  a new continuous buffer holding the pixels of \<open>src\<close> is allocated.
\<close>

definition copyTo :: "raster list \<Rightarrow> Mat \<Rightarrow> Mat \<times> raster list" where
  "copyTo h m =
     (if Mat_empty m then (Mat_none, h)
      else (\<lparr>data = Some (length h), rows = rows m, cols = cols m, org_y = 0, org_x = 0\<rparr>,
            h @ [pixels h m]))"

section \<open>The program's records and its environment\<close>

record Point =
  pt_x :: c_int
  pt_y :: c_int

record LocAndConf =
  match_loc :: Point
  confidence :: real
  shift_row :: c_int
  shift_col :: c_int

text \<open>
  The OpenCV primitives the program calls but does not contain are parameters:
  \<^item> \<open>matchTemplate\<close> (\<^verbatim>\<open>cv::matchTemplate\<close> with \<^verbatim>\<open>TM_CCORR_NORMED\<close> and no mask)
    takes the store, the image and the template headers and yields its result matrix
    (of an abstract type \<open>'r\<close>) or throws; it may change the store;
  \<^item> \<open>minMaxLoc\<close> (\<^verbatim>\<open>cv::minMaxLoc\<close>) reads the result matrix and yields
    \<open>(minVal, maxVal, minLoc, maxLoc)\<close> or throws.
\<close>

record 'r prims =
  matchTemplate :: "raster list \<Rightarrow> Mat \<Rightarrow> Mat \<Rightarrow> (exc + 'r) \<times> raster list"
  minMaxLoc :: "'r \<Rightarrow> exc + (real \<times> real \<times> Point \<times> Point)"

text \<open>
  A line of a \<^verbatim>\<open>Results.csv\<close>: the fixed header
  \<^verbatim>\<open>Pixel Shift X (Columns),Pixel Shift Y (Rows),Confidence (%),Dist. X (mm),Dist. Y (mm),Error X (mm),Error Y (mm),Error X (%),Error Y (%),MIG\<close>
  or a row of \<^verbatim>\<open>shift_col\<close>, \<^verbatim>\<open>shift_row\<close>, \<^verbatim>\<open>confidence\<close>, \<^verbatim>\<open>shift_col_mm\<close>,
  \<^verbatim>\<open>shift_row_mm\<close>, four fields left blank, and the MIG. How numbers are printed is
  not modelled.
\<close>

datatype csv_line = Header | Row c_int c_int real dbl dbl dbl

text \<open>
  The state the program changes: the store of pixel buffers, the output directories
  that exist, the output files with their lines and, for stating what the matching
  primitive was called with, the history \<open>ncc_calls\<close> of the pixels of the image and
  of the template handed to each \<^verbatim>\<open>cv::matchTemplate\<close> call. Text printed to
  \<^verbatim>\<open>std::cout\<close> and \<^verbatim>\<open>std::cerr\<close> is not part of the state: it decides nothing.
\<close>

record world =
  heap :: "raster list"
  folders :: "string set"
  csv_files :: "string \<rightharpoonup> csv_line list"
  ncc_calls :: "(raster \<times> raster) list"

section \<open>\<^verbatim>\<open>get_results\<close>\<close>

text \<open>
  \<^verbatim>\<open>LocAndConf get_results(cv::Mat &frame, cv::Mat &roi, const int &frameWidth,
  const int &frameHeight, const int &width, const int &height)\<close>; the parameters
  \<^verbatim>\<open>frameWidth\<close> and \<^verbatim>\<open>frameHeight\<close> are written \<open>fw\<close> and \<open>fh\<close>.
\<close>

definition get_results ::
  "'r prims \<Rightarrow> world \<Rightarrow> Mat \<Rightarrow> Mat \<Rightarrow> c_int \<Rightarrow> c_int \<Rightarrow> c_int \<Rightarrow> c_int
     \<Rightarrow> (exc + LocAndConf) \<times> world" where
  "get_results P w frame roi fw fh width height =
     (let (copy_frame, h1) = copyTo (heap w) frame;
          (copy_roi, h2) = copyTo h1 roi;
          w2 = w\<lparr>heap := h2,
                 ncc_calls := ncc_calls w @ [(pixels h2 copy_frame, pixels h2 copy_roi)]\<rparr>;
          (res, h3) = matchTemplate P h2 copy_frame copy_roi;
          w3 = w2\<lparr>heap := h3\<rparr>
      in case res of
           Inl e \<Rightarrow> (Inl e, w3)
         | Inr result \<Rightarrow>
             (case minMaxLoc P result of
                Inl e \<Rightarrow> (Inl e, w3)
              | Inr (minVal, maxVal, minLoc, maxLoc) \<Rightarrow>
                  (Inr \<lparr>match_loc = maxLoc,
                        confidence = maxVal * 100,
                        shift_row = (pt_y maxLoc + c_div height 2) - c_div fh 2,
                        shift_col = (pt_x maxLoc + c_div width 2) - c_div fw 2\<rparr>,
                   w3)))"

text \<open>The constants for NCC of \<^verbatim>\<open>recursive_folders\<close> (line 106).\<close>

definition roi_w :: c_int where
  "roi_w = 128"

definition roi_h :: c_int where
  "roi_h = 128"

definition topLeft_x :: c_int where
  "topLeft_x = 300"

definition topLeft_y :: c_int where
  "topLeft_y = 208"

definition frameWidth :: c_int where
  "frameWidth = 728"

definition frameHeight :: c_int where
  "frameHeight = 544"

section \<open>\<^verbatim>\<open>get_roi\<close>\<close>

text \<open>
  \<^verbatim>\<open>copy_frame(roiRect)\<close> is a view into the buffer of \<^verbatim>\<open>copy_frame\<close>; OpenCV throws
  unless the rectangle lies within the matrix. The parameters \<^verbatim>\<open>topLeft_x\<close> and
  \<^verbatim>\<open>topLeft_y\<close> are written \<open>tlx\<close> and \<open>tly\<close>.
\<close>

definition get_roi ::
  "raster list \<Rightarrow> Mat \<Rightarrow> c_int \<Rightarrow> c_int \<Rightarrow> c_int \<Rightarrow> c_int \<Rightarrow> (exc + Mat) \<times> raster list" where
  "get_roi h frame width height tlx tly =
     (let (copy_frame, h1) = copyTo h frame
      in if 0 \<le> sint tlx \<and> 0 \<le> sint width \<and> sint tlx + sint width \<le> int (cols copy_frame)
            \<and> 0 \<le> sint tly \<and> 0 \<le> sint height \<and> sint tly + sint height \<le> int (rows copy_frame)
         then (Inr (copy_frame\<lparr>rows := nat (sint height), cols := nat (sint width),
                               org_y := org_y copy_frame + nat (sint tly),
                               org_x := org_x copy_frame + nat (sint tlx)\<rparr>), h1)
         else (Inl CvError, h1))"

section \<open>\<^verbatim>\<open>mig_frame\<close>\<close>

text \<open>
  Modelled from the spec: the OpenCV calls of \<^verbatim>\<open>mig_frame\<close> (\<^verbatim>\<open>cv::Sobel\<close> with
  kernel size 3, \<^verbatim>\<open>cv::magnitude\<close>, \<^verbatim>\<open>cv::sum\<close>) are not in src/. The spec (4.6) has
  them as the horizontal and vertical first-derivative responses of a fixed 3x3
  Sobel-type kernel, the per-pixel magnitude \<open>sqrt (dx\<^sup>2 + dy\<^sup>2)\<close> and the sum over
  all pixels. The kernel of derivative order 1 is \<open>[-1, 0, 1]\<close>, that of order 0 the
  smoothing \<open>[1, 2, 1]\<close>; a pixel outside the image is the one mirrored at the border
  pixel (OpenCV's default border), and the only pixel of a line of length 1. The
  responses of 8-bit pixels are integers.
\<close>

definition borderInterpolate :: "int \<Rightarrow> nat \<Rightarrow> nat" where
  "borderInterpolate p len =
     (if len = 1 then 0
      else if p < 0 then nat (- p)
      else if int len \<le> p then nat (2 * int len - 2 - p)
      else nat p)"

definition deriv_kernel :: "nat \<Rightarrow> int list" where
  "deriv_kernel order = (if order = 0 then [1, 2, 1] else [- 1, 0, 1])"

definition Sobel :: "raster \<Rightarrow> nat \<Rightarrow> nat \<Rightarrow> nat \<Rightarrow> nat \<Rightarrow> int list list" where
  "Sobel src nrows ncols dx dy =
     map (\<lambda>r. map (\<lambda>c.
            (\<Sum>i\<leftarrow>[0..<3]. \<Sum>j\<leftarrow>[0..<3].
               deriv_kernel dy ! i * deriv_kernel dx ! j *
               uint (src ! borderInterpolate (int r + int i - 1) nrows
                         ! borderInterpolate (int c + int j - 1) ncols)))
          [0..<ncols])
       [0..<nrows]"

definition magnitude :: "int list list \<Rightarrow> int list list \<Rightarrow> real list list" where
  "magnitude dx dy =
     map2 (map2 (\<lambda>a b. sqrt ((real_of_int a)\<^sup>2 + (real_of_int b)\<^sup>2))) dx dy"

definition cv_sum :: "real list list \<Rightarrow> real" where
  "cv_sum mag = sum_list (map sum_list mag)"

text \<open>
  \<^verbatim>\<open>double mig_frame(const cv::Mat &frame)\<close>. On an empty frame it returns
  \<^verbatim>\<open>EXIT_FAILURE\<close>, converted to \<^verbatim>\<open>double\<close>. \<^verbatim>\<open>frame.rows * frame.cols\<close> is a
  product of ints, which wraps around; the quotient of the sum by it is a division of
  doubles.
\<close>

definition mig_frame :: "raster list \<Rightarrow> Mat \<Rightarrow> dbl" where
  "mig_frame h frame =
     (if Mat_empty frame then Finite (real_of_int (sint EXIT_FAILURE))
      else
        let src = pixels h frame;
            dx = Sobel src (rows frame) (cols frame) 1 0;
            dy = Sobel src (rows frame) (cols frame) 0 1;
            mag = magnitude dx dy;
            total = cv_sum mag
        in ddiv total
             (real_of_int (sint (word_of_nat (rows frame) * word_of_nat (cols frame) :: c_int))))"

section \<open>The calibration transform\<close>

text \<open>
  The transformation matrix parameters of \<^verbatim>\<open>recursive_folders\<close> (lines 100 to 103);
  they are constants of the program.
\<close>

definition Txx :: real where
  "Txx = - 256.75"

definition Txy :: real where
  "Txy = 2.5"

definition Tyx :: real where
  "Tyx = 3.5"

definition Tyy :: real where
  "Tyy = 260.5"

text \<open>
  Lines 198 and 199. The divisor \<^verbatim>\<open>((Txx * Tyy) - (Txy * Tyx))\<close>, written out in both
  lines, is \<open>det_expr\<close>. The pixel shifts are converted from int to double, which is
  exact; every product, difference and quotient is rounded.
\<close>

definition det_expr :: dbl where
  "det_expr = lift2 dsub (dmul Txx Tyy) (dmul Txy Tyx)"

definition shift_col_mm :: "c_int \<Rightarrow> c_int \<Rightarrow> dbl" where
  "shift_col_mm sr sc =
     lift2 ddiv
       (lift2 dsub (dmul (real_of_int (sint sc)) Tyy) (dmul (real_of_int (sint sr)) Txy))
       det_expr"

definition shift_row_mm :: "c_int \<Rightarrow> c_int \<Rightarrow> dbl" where
  "shift_row_mm sr sc =
     lift2 ddiv
       (lift2 dsub (dmul (real_of_int (sint sr)) Txx) (dmul (real_of_int (sint sc)) Tyx))
       det_expr"

section \<open>Ordering the frame names\<close>

text \<open>
  The comparator of the \<^verbatim>\<open>std::sort\<close> call (lines 171 to 178) uses
  \<^verbatim>\<open>find_first_of\<close>, \<^verbatim>\<open>substr\<close> and \<^verbatim>\<open>std::stoi\<close> of the C++ standard library.
  \<^verbatim>\<open>npos\<close> is \<open>None\<close>; \<^verbatim>\<open>substr\<close> throws when the position is beyond the end, as
  \<^verbatim>\<open>npos\<close> always is.
\<close>

fun find_first_of :: "string \<Rightarrow> string \<Rightarrow> nat option" where
  "find_first_of [] cs = None"
| "find_first_of (c # s) cs =
     (if c \<in> set cs then Some 0 else map_option Suc (find_first_of s cs))"

definition substr :: "string \<Rightarrow> nat option \<Rightarrow> exc + string" where
  "substr s pos =
     (case pos of
        None \<Rightarrow> Inl OutOfRange
      | Some n \<Rightarrow> if length s < n then Inl OutOfRange else Inr (drop n s))"

definition isspace :: "char \<Rightarrow> bool" where
  "isspace c = (c \<in> set [CHR 0x20, CHR 0x09, CHR 0x0A, CHR 0x0B, CHR 0x0C, CHR 0x0D])"

definition isdigit :: "char \<Rightarrow> bool" where
  "isdigit c = (c \<in> set ''0123456789'')"

definition digit_value :: "char \<Rightarrow> int" where
  "digit_value c = int (of_char c) - 48"

definition decimal :: "string \<Rightarrow> int" where
  "decimal ds = foldl (\<lambda>a c. a * 10 + digit_value c) 0 ds"

text \<open>
  \<^verbatim>\<open>std::stoi(str)\<close>: leading white space is skipped, a sign is read, then as many
  decimal digits as there are; \<^verbatim>\<open>std::invalid_argument\<close> when there is no digit,
  \<^verbatim>\<open>std::out_of_range\<close> when the value is not an \<^verbatim>\<open>int\<close>. The result, within the
  range of \<^verbatim>\<open>int\<close>, is an integer.
\<close>

definition stoi :: "string \<Rightarrow> exc + int" where
  "stoi str =
     (let s1 = dropWhile isspace str;
          neg = (case s1 of [] \<Rightarrow> False | c # _ \<Rightarrow> c = CHR ''-'');
          s2 = (case s1 of [] \<Rightarrow> [] | c # r \<Rightarrow> if c = CHR ''-'' \<or> c = CHR ''+'' then r else s1);
          ds = takeWhile isdigit s2;
          v = (if neg then - decimal ds else decimal ds)
      in if ds = [] then Inl InvalidArgument
         else if v < - (2 ^ 31) \<or> 2 ^ 31 - 1 < v then Inl OutOfRange
         else Inr v)"

text \<open>The integer the comparator reads off one name.\<close>

definition name_index :: "string \<Rightarrow> exc + int" where
  "name_index a =
     (case substr a (find_first_of a ''0123456789'') of
        Inl e \<Rightarrow> Inl e
      | Inr num_a \<Rightarrow> stoi num_a)"

text \<open>
  The lambda: both substrings are taken first, then both are converted, then compared.
\<close>

definition frame_less :: "string \<Rightarrow> string \<Rightarrow> exc + bool" where
  "frame_less a b =
     (case substr a (find_first_of a ''0123456789'') of
        Inl e \<Rightarrow> Inl e
      | Inr num_a \<Rightarrow>
          (case substr b (find_first_of b ''0123456789'') of
             Inl e \<Rightarrow> Inl e
           | Inr num_b \<Rightarrow>
               (case stoi num_a of
                  Inl e \<Rightarrow> Inl e
                | Inr int_a \<Rightarrow>
                    (case stoi num_b of
                       Inl e \<Rightarrow> Inl e
                     | Inr int_b \<Rightarrow> Inr (int_a < int_b)))))"

text \<open>
  \<^verbatim>\<open>std::sort\<close> is the C++ standard library's and not in src/; what the standard
  promises of it is a relation between the range before and after. A range of fewer
  than two elements is left as it is, and nothing is compared. Otherwise, when no
  comparison between two elements throws, the outcome is a permutation \<open>ys\<close> of the
  range in which no element is less than an earlier one (the comparison of a later with an
  earlier element is false); nothing is promised on the order of elements neither of
  which is less than the other. An exception thrown by a comparison leaves
  \<^verbatim>\<open>std::sort\<close>. (The comparator above throws exactly when one of its two arguments
  has no index, and every element of a range of two or more is compared at least once.)
\<close>

definition sort_outcome :: "('a \<Rightarrow> 'a \<Rightarrow> exc + bool) \<Rightarrow> 'a list \<Rightarrow> exc + 'a list \<Rightarrow> bool" where
  "sort_outcome cmp xs out =
     (if length xs < 2 then out = Inr xs
      else
        case out of
          Inl e \<Rightarrow> \<exists>x\<in>set xs. \<exists>y\<in>set xs. cmp x y = Inl e
        | Inr ys \<Rightarrow>
            (\<forall>x\<in>set xs. \<forall>y\<in>set xs. \<not> isl (cmp x y)) \<and> mset ys = mset xs
            \<and> sorted_wrt (\<lambda>a b. cmp b a = Inr False) ys)"

text \<open>The outcomes of the \<^verbatim>\<open>std::sort\<close> call on the names of one leaf.\<close>

definition FrameSequencer :: "string list \<Rightarrow> exc + string list \<Rightarrow> bool" where
  "FrameSequencer file_names out = sort_outcome frame_less file_names out"

text \<open>
  The words of the spec (4.2): the first maximal run of decimal digits of a name, and
  the integer it denotes.
\<close>

definition first_digit_run :: "string \<Rightarrow> string" where
  "first_digit_run a = takeWhile isdigit (dropWhile (\<lambda>c. \<not> isdigit c) a)"

definition spec_index :: "string \<Rightarrow> int" where
  "spec_index a = decimal (first_digit_run a)"

text \<open>A name the comparator can read: it has a digit, and its index is an \<^verbatim>\<open>int\<close>.\<close>

definition readable :: "string \<Rightarrow> bool" where
  "readable a = ((\<exists>c\<in>set a. isdigit c) \<and> spec_index a \<le> 2 ^ 31 - 1)"

section \<open>\<^verbatim>\<open>recursive_folders\<close>\<close>

text \<open>
  The input tree: an entry of a directory is a file or a directory with its entries
  in the order \<^verbatim>\<open>std::filesystem::directory_iterator\<close> yields them.
\<close>

datatype entry = File string | Dir string "entry list"

fun entry_name :: "entry \<Rightarrow> string" where
  "entry_name (File n) = n"
| "entry_name (Dir n es) = n"

fun is_directory :: "entry \<Rightarrow> bool" where
  "is_directory (File n) = False"
| "is_directory (Dir n es) = True"

fun children :: "entry \<Rightarrow> entry list" where
  "children (File n) = []"
| "children (Dir n es) = es"

text \<open>
  The environment of a run: the OpenCV primitives, the \<^verbatim>\<open>std::sort\<close> of the standard
  library in use, what lies at a path of the input (\<open>lookup\<close>), the pixels
  \<^verbatim>\<open>cv::imread\<close> decodes from a path (\<open>decode\<close>, \<open>None\<close> when it cannot), whether
  \<^verbatim>\<open>create_directories\<close> succeeds on a path and whether a \<^verbatim>\<open>std::ofstream\<close> on a
  path opens.
\<close>

record 'r env =
  cv :: "'r prims"
  sort_impl :: "(string \<Rightarrow> string \<Rightarrow> exc + bool) \<Rightarrow> string list \<Rightarrow> exc + string list"
  lookup :: "string \<Rightarrow> entry option"
  decode :: "string \<Rightarrow> raster option"
  can_create :: "string \<Rightarrow> bool"
  can_open :: "string \<Rightarrow> bool"

definition raster_cols :: "raster \<Rightarrow> nat" where
  "raster_cols r = (case r of [] \<Rightarrow> 0 | row # _ \<Rightarrow> length row)"

text \<open>\<^verbatim>\<open>cv::imread(path, cv::IMREAD_GRAYSCALE)\<close>: an empty matrix when nothing is decoded.\<close>

definition imread :: "'r env \<Rightarrow> raster list \<Rightarrow> string \<Rightarrow> Mat \<times> raster list" where
  "imread E h path =
     (case decode E path of
        None \<Rightarrow> (Mat_none, h)
      | Some r \<Rightarrow>
          (\<lparr>data = Some (length h), rows = length r, cols = raster_cols r,
            org_y = 0, org_x = 0\<rparr>, h @ [r]))"

text \<open>
  \<^verbatim>\<open>create_folders\<close>: a \<^verbatim>\<open>filesystem_error\<close> is caught and reported, nothing else
  happens then. Only the paths handed to \<^verbatim>\<open>create_folders\<close> are ever asked for, so
  the directories above a created one are not recorded.
\<close>

definition create_folders :: "'r env \<Rightarrow> world \<Rightarrow> string \<Rightarrow> world" where
  "create_folders E w path =
     (if path \<in> folders w then w
      else if can_create E path then w\<lparr>folders := insert path (folders w)\<rparr>
      else w)"

definition csv_append :: "string \<Rightarrow> csv_line \<Rightarrow> world \<Rightarrow> world" where
  "csv_append path line w =
     w\<lparr>csv_files := (csv_files w)
          (path \<mapsto> (case csv_files w path of None \<Rightarrow> [] | Some ls \<Rightarrow> ls) @ [line])\<rparr>"

text \<open>
  How a loop body ends: it falls through to the next round, the function returns, or
  an exception leaves it.
\<close>

datatype flow = Next world | Return c_int world | Throw exc world

fun for_each :: "('a \<Rightarrow> world \<Rightarrow> flow) \<Rightarrow> 'a list \<Rightarrow> world \<Rightarrow> flow" where
  "for_each body [] w = Next w"
| "for_each body (x # xs) w =
     (case body x w of
        Next w' \<Rightarrow> for_each body xs w'
      | Return c w' \<Rightarrow> Return c w'
      | Throw e w' \<Rightarrow> Throw e w')"

fun world_of :: "flow \<Rightarrow> world" where
  "world_of (Next w) = w"
| "world_of (Return c w) = w"
| "world_of (Throw e w) = w"

text \<open>The body of the loop over the ordered frame names (lines 188 to 225).\<close>

definition frame_body :: "'r env \<Rightarrow> string \<Rightarrow> string \<Rightarrow> Mat \<Rightarrow> string \<Rightarrow> world \<Rightarrow> flow" where
  "frame_body E exp_path csv_path roi file_name w =
     (let img_path = exp_path @ ''/'' @ file_name;
          (img, h1) = imread E (heap w) img_path;
          (res, w2) = get_results (cv E) (w\<lparr>heap := h1\<rparr>) img roi
                        frameWidth frameHeight roi_w roi_h
      in case res of
           Inl e \<Rightarrow> Throw e w2
         | Inr ncc_results \<Rightarrow>
             Next (csv_append csv_path
                     (Row (shift_col ncc_results) (shift_row ncc_results)
                          (confidence ncc_results)
                          (shift_col_mm (shift_row ncc_results) (shift_col ncc_results))
                          (shift_row_mm (shift_row ncc_results) (shift_col ncc_results))
                          (mig_frame (heap w2) img))
                     w2))"

text \<open>The body of the loop over the entries of a movement directory (lines 137 to 230).\<close>

definition exp_body :: "'r env \<Rightarrow> string \<Rightarrow> string \<Rightarrow> string \<Rightarrow> entry \<Rightarrow> world \<Rightarrow> flow" where
  "exp_body E cam_name movement_name movement_dir exp_entry w =
     (if \<not> is_directory exp_entry then Next w
      else
        let exp_dir = movement_dir @ ''/'' @ entry_name exp_entry;
            rel = cam_name @ ''/'' @ movement_name @ ''/'' @ entry_name exp_entry;
            w1 = create_folders E w (''../laser_decorrelation_results/'' @ rel);
            w2 = create_folders E w1 (''../laser_decorrelation_images_ncc/'' @ rel);
            csv_path = ''../laser_decorrelation_results/'' @ rel @ ''/'' @ ''Results.csv''
        in if \<not> can_open E csv_path then Return EXIT_FAILURE w2
           else
             let w3 = csv_append csv_path Header (w2\<lparr>csv_files := (csv_files w2)(csv_path \<mapsto> [])\<rparr>);
                 file_names = map entry_name (children exp_entry)
             in case sort_impl E frame_less file_names of
                  Inl e \<Rightarrow> Throw e w3
                | Inr sorted_names \<Rightarrow>
                    let (frame_0, h4) = imread E (heap w3) (exp_dir @ ''/frame_0.png'');
                        (r, h5) = get_roi h4 frame_0 roi_w roi_h topLeft_x topLeft_y
                    in case r of
                         Inl e \<Rightarrow> Throw e (w3\<lparr>heap := h5\<rparr>)
                       | Inr roi \<Rightarrow>
                           for_each (frame_body E exp_dir csv_path roi) sorted_names
                             (w3\<lparr>heap := h5\<rparr>))"

definition movement_body :: "'r env \<Rightarrow> string \<Rightarrow> string \<Rightarrow> entry \<Rightarrow> world \<Rightarrow> flow" where
  "movement_body E cam_name cam_param_dir movement_entry w =
     (if is_directory movement_entry
      then for_each (exp_body E cam_name (entry_name movement_entry)
                       (cam_param_dir @ ''/'' @ entry_name movement_entry))
             (children movement_entry) w
      else Next w)"

definition cam_param_body :: "'r env \<Rightarrow> string \<Rightarrow> entry \<Rightarrow> world \<Rightarrow> flow" where
  "cam_param_body E root_path cam_param_entry w =
     (if is_directory cam_param_entry
      then for_each (movement_body E (entry_name cam_param_entry)
                       (root_path @ ''/'' @ entry_name cam_param_entry))
             (children cam_param_entry) w
      else Next w)"

text \<open>
  \<^verbatim>\<open>int recursive_folders(const std::string &root_path)\<close>: the returned int, or the
  exception that left it, with the state reached. A \<^verbatim>\<open>directory_iterator\<close> on a
  root that is not a directory throws.
\<close>

definition recursive_folders :: "'r env \<Rightarrow> string \<Rightarrow> world \<Rightarrow> (exc + c_int) \<times> world" where
  "recursive_folders E root_path w =
     (case lookup E root_path of
        None \<Rightarrow> (Inr EXIT_FAILURE, w)
      | Some (File n) \<Rightarrow> (Inl FilesystemError, w)
      | Some (Dir n es) \<Rightarrow>
          (case for_each (cam_param_body E root_path) es w of
             Next w' \<Rightarrow> (Inr EXIT_SUCCESS, w')
           | Return c w' \<Rightarrow> (Inr c, w')
           | Throw e w' \<Rightarrow> (Inl e, w')))"

section \<open>What the claims speak of\<close>

text \<open>
  A matching primitive that writes only to the buffers of the two matrices it is
  handed, and to buffers it allocates: every other buffer of the store is as before.
\<close>

definition touches_only_args :: "'r prims \<Rightarrow> bool" where
  "touches_only_args P =
     (\<forall>h m t. length h \<le> length (snd (matchTemplate P h m t))
        \<and> (\<forall>a<length h. data m \<noteq> Some a \<longrightarrow> data t \<noteq> Some a \<longrightarrow>
               snd (matchTemplate P h m t) ! a = h ! a))"

text \<open>Every buffer of the store \<open>h\<close> is in the store \<open>h'\<close>, at its address and unchanged.\<close>

definition keeps :: "raster list \<Rightarrow> raster list \<Rightarrow> bool" where
  "keeps h h' = (length h \<le> length h' \<and> (\<forall>a<length h. h' ! a = h ! a))"

text \<open>A frame of uniform intensity \<open>v\<close>: every pixel it shows is \<open>v\<close>.\<close>

definition uniform :: "raster list \<Rightarrow> Mat \<Rightarrow> uchar \<Rightarrow> bool" where
  "uniform h frame v = (\<forall>r<rows frame. \<forall>c<cols frame. pixels h frame ! r ! c = v)"

section \<open>An example run\<close>

text \<open>
  A matching primitive for the examples: it overwrites the pixels of both matrices it
  is handed with zeros and reports the best match at \<open>(300, 208)\<close> with score 1.
\<close>

definition scribble :: "raster list \<Rightarrow> Mat \<Rightarrow> raster list" where
  "scribble h m =
     (case data m of None \<Rightarrow> h | Some a \<Rightarrow> h[a := map (map (\<lambda>p. 0)) (h ! a)])"

definition demo_prims :: "unit prims" where
  "demo_prims =
     \<lparr>matchTemplate = (\<lambda>h m t. (Inr (), scribble (scribble h m) t)),
      minMaxLoc = (\<lambda>r. Inr (0, 1, \<lparr>pt_x = 0, pt_y = 0\<rparr>, \<lparr>pt_x = 300, pt_y = 208\<rparr>))\<rparr>"

text \<open>
  An input tree with a stray file and two leaves; the \<^verbatim>\<open>Results.csv\<close> of the first
  leaf cannot be opened. Every image decodes to the same 2x2 raster. The names of each
  leaf are listed in ascending order already, so the sort of the example hands them
  back as they are.
\<close>

definition demo_tree :: entry where
  "demo_tree =
     Dir ''laser_decorrelation_images''
       [File ''notes.txt'',
        Dir ''Gain_1''
          [Dir ''Move_1''
             [Dir ''Exp_1'' [File ''frame_0.png'', File ''frame_1.png''],
              Dir ''Exp_2'' [File ''frame_0.png'']]]]"

definition demo_env :: "unit env" where
  "demo_env =
     \<lparr>cv = demo_prims,
      sort_impl = (\<lambda>cmp xs. Inr xs),
      lookup = (\<lambda>p. if p = ''../laser_decorrelation_images'' then Some demo_tree else None),
      decode = (\<lambda>p. Some [[1, 2], [3, 4]]),
      can_create = (\<lambda>p. True),
      can_open = (\<lambda>p. p \<noteq> ''../laser_decorrelation_results/Gain_1/Move_1/Exp_1/Results.csv'')\<rparr>"

definition world0 :: world where
  "world0 = \<lparr>heap = [], folders = {}, csv_files = Map.empty, ncc_calls = []\<rparr>"

text \<open>A store with one 2x2 buffer, the matrix of all of it and the view of its last pixel.\<close>

definition world1 :: world where
  "world1 = \<lparr>heap = [[[1, 2], [3, 4]]], folders = {}, csv_files = Map.empty, ncc_calls = []\<rparr>"

definition whole1 :: Mat where
  "whole1 = \<lparr>data = Some 0, rows = 2, cols = 2, org_y = 0, org_x = 0\<rparr>"

definition corner1 :: Mat where
  "corner1 = \<lparr>data = Some 0, rows = 1, cols = 1, org_y = 1, org_x = 1\<rparr>"

section \<open>Facts about the machine values\<close>

lemma sdiv_two_bounds:
  fixes k :: int
  assumes "- (2 ^ 31) \<le> k" and "k < 2 ^ 31"
  shows "- (2 ^ 31) \<le> k sdiv 2 \<and> k sdiv 2 < 2 ^ 31"
proof (cases "0 \<le> k")
  case True
  then have "k sdiv 2 = k div 2"
    by (cases "k = 0") (simp_all add: signed_divide_int_def)
  with True assms show ?thesis by simp linarith
next
  case False
  then have "k sdiv 2 = - ((- k) div 2)"
    by (simp add: signed_divide_int_def)
  with False assms show ?thesis by simp linarith
qed

lemma sint_c_div_two: "sint (c_div a 2) = sint a sdiv 2"
proof -
  have lo: "- (2 ^ 31) \<le> sint a"
    using sint_ge [of a] by simp
  have hi: "sint a < 2 ^ 31"
    using sint_lt [of a] by simp
  have "signed_take_bit 31 (sint a sdiv 2) = sint a sdiv 2"
    using sdiv_two_bounds [OF lo hi]
    by (simp add: signed_take_bit_int_eq_self_iff)
  then show ?thesis
    by (simp add: c_div_def sint_sbintrunc')
qed

lemma c_div_two_truncates: "sint (c_div k 2) = sgn (sint k) * (\<bar>sint k\<bar> div 2)"
  by (simp add: sint_c_div_two signed_divide_int_def)

lemma shift_in_range:
  fixes y a b :: c_int
  assumes "- (2 ^ 31) \<le> sint y + sint a sdiv 2 - sint b sdiv 2"
    and "sint y + sint a sdiv 2 - sint b sdiv 2 < 2 ^ 31"
  shows "sint ((y + c_div a 2) - c_div b 2) = sint y + sint a sdiv 2 - sint b sdiv 2"
proof -
  have "(y + c_div a 2) - c_div b 2 = word_of_int (sint y + sint a sdiv 2 - sint b sdiv 2)"
    by (simp add: c_div_def)
  then have "sint ((y + c_div a 2) - c_div b 2)
        = signed_take_bit 31 (sint y + sint a sdiv 2 - sint b sdiv 2)"
    by (simp only: sint_sbintrunc') simp
  also have "\<dots> = sint y + sint a sdiv 2 - sint b sdiv 2"
    using assms by (simp add: signed_take_bit_int_eq_self_iff)
  finally show ?thesis .
qed

section \<open>The displacement estimate\<close>

text \<open>
  C1. Whenever the matching primitive returns, \<^verbatim>\<open>get_results\<close> returns the location of
  the maximum, a confidence of the maximal score times 100, and the shifts
  \<open>(maxLoc.y + height / 2) - frameHeight / 2\<close> and \<open>(maxLoc.x + width / 2) - frameWidth / 2\<close>.
  Each division by 2 truncates toward zero, and where the shift lies in the range of
  \<^verbatim>\<open>int\<close> the word computed is that integer.
\<close>

theorem get_results_formula:
  assumes "copyTo (heap w) frame = (copy_frame, h1)"
    and "copyTo h1 roi = (copy_roi, h2)"
    and "matchTemplate P h2 copy_frame copy_roi = (Inr result, h3)"
    and "minMaxLoc P result = Inr (minVal, maxVal, minLoc, maxLoc)"
  shows "\<exists>a w'. get_results P w frame roi fw fh width height = (Inr a, w')
           \<and> match_loc a = maxLoc
           \<and> confidence a = maxVal * 100
           \<and> shift_row a = (pt_y maxLoc + c_div height 2) - c_div fh 2
           \<and> shift_col a = (pt_x maxLoc + c_div width 2) - c_div fw 2
           \<and> sint (c_div height 2) = sgn (sint height) * (\<bar>sint height\<bar> div 2)
           \<and> sint (c_div fh 2) = sgn (sint fh) * (\<bar>sint fh\<bar> div 2)
           \<and> sint (c_div width 2) = sgn (sint width) * (\<bar>sint width\<bar> div 2)
           \<and> sint (c_div fw 2) = sgn (sint fw) * (\<bar>sint fw\<bar> div 2)
           \<and> (- (2 ^ 31) \<le> sint (pt_y maxLoc) + sint height sdiv 2 - sint fh sdiv 2
                \<and> sint (pt_y maxLoc) + sint height sdiv 2 - sint fh sdiv 2 < 2 ^ 31
              \<longrightarrow> sint (shift_row a) = sint (pt_y maxLoc) + sint height sdiv 2 - sint fh sdiv 2)
           \<and> (- (2 ^ 31) \<le> sint (pt_x maxLoc) + sint width sdiv 2 - sint fw sdiv 2
                \<and> sint (pt_x maxLoc) + sint width sdiv 2 - sint fw sdiv 2 < 2 ^ 31
              \<longrightarrow> sint (shift_col a) = sint (pt_x maxLoc) + sint width sdiv 2 - sint fw sdiv 2)"
  using assms by (simp add: get_results_def c_div_two_truncates shift_in_range)

text \<open>
  The formula at odd dimensions: a 129x129 template in a 701x401 frame, matched at
  \<open>(300, 208)\<close> with score 1.
\<close>

theorem get_results_formula_witness:
  "copyTo (heap world0) Mat_none = (Mat_none, [])
   \<and> copyTo [] Mat_none = (Mat_none, [])
   \<and> matchTemplate demo_prims [] Mat_none Mat_none = (Inr (), [])
   \<and> minMaxLoc demo_prims () = Inr (0, 1, \<lparr>pt_x = 0, pt_y = 0\<rparr>, \<lparr>pt_x = 300, pt_y = 208\<rparr>)
   \<and> (\<exists>a w'. get_results demo_prims world0 Mat_none Mat_none 701 401 129 129 = (Inr a, w')
         \<and> confidence a = 100 \<and> shift_row a = 72 \<and> shift_col a = 14
         \<and> sint (c_div (129 :: c_int) 2) = 64 \<and> sint (c_div (401 :: c_int) 2) = 200
         \<and> sint (c_div (701 :: c_int) 2) = 350
         \<and> sint (shift_row a) = 72 \<and> sint (shift_col a) = 14)"
proof -
  have a: "copyTo (heap world0) Mat_none = (Mat_none, [])"
    by (simp add: copyTo_def Mat_empty_def Mat_none_def world0_def)
  have b: "copyTo [] Mat_none = (Mat_none, [])"
    by (simp add: copyTo_def Mat_empty_def Mat_none_def)
  have c: "matchTemplate demo_prims [] Mat_none Mat_none = (Inr (), [])"
    by (simp add: demo_prims_def scribble_def Mat_none_def)
  have d: "minMaxLoc demo_prims () = Inr (0, 1, \<lparr>pt_x = 0, pt_y = 0\<rparr>, \<lparr>pt_x = 300, pt_y = 208\<rparr>)"
    by (simp add: demo_prims_def)
  show ?thesis
    using get_results_formula [OF a b c d, of 701 401 129 129] a b c d
    by (auto simp add: c_div_def signed_divide_int_def)
qed

text \<open>
  C5. With the program's constants (a 128x128 template cut at \<open>(300, 208)\<close>, a 728x544
  frame), a match reported at the origin of the template with score 1 gives the shifts
  0 and 0 and the confidence 100.
\<close>

theorem identity_check:
  assumes "copyTo (heap w) frame = (copy_frame, h1)"
    and "copyTo h1 roi = (copy_roi, h2)"
    and "matchTemplate P h2 copy_frame copy_roi = (Inr result, h3)"
    and "minMaxLoc P result = Inr (minVal, 1, minLoc, \<lparr>pt_x = topLeft_x, pt_y = topLeft_y\<rparr>)"
  shows "\<exists>a w'. get_results P w frame roi frameWidth frameHeight roi_w roi_h = (Inr a, w')
           \<and> match_loc a = \<lparr>pt_x = 300, pt_y = 208\<rparr>
           \<and> shift_row a = 0 \<and> shift_col a = 0 \<and> confidence a = 100"
  using assms
  by (simp add: get_results_def c_div_def signed_divide_int_def roi_w_def roi_h_def
      topLeft_x_def topLeft_y_def frameWidth_def frameHeight_def)

theorem identity_check_witness:
  "copyTo (heap world0) Mat_none = (Mat_none, [])
   \<and> copyTo [] Mat_none = (Mat_none, [])
   \<and> matchTemplate demo_prims [] Mat_none Mat_none = (Inr (), [])
   \<and> minMaxLoc demo_prims () = Inr (0, 1, \<lparr>pt_x = 0, pt_y = 0\<rparr>, \<lparr>pt_x = topLeft_x, pt_y = topLeft_y\<rparr>)
   \<and> (\<exists>a w'. get_results demo_prims world0 Mat_none Mat_none frameWidth frameHeight roi_w roi_h
                = (Inr a, w')
         \<and> shift_row a = 0 \<and> shift_col a = 0 \<and> confidence a = 100)"
proof -
  have a: "copyTo (heap world0) Mat_none = (Mat_none, [])"
    by (simp add: copyTo_def Mat_empty_def Mat_none_def world0_def)
  have b: "copyTo [] Mat_none = (Mat_none, [])"
    by (simp add: copyTo_def Mat_empty_def Mat_none_def)
  have c: "matchTemplate demo_prims [] Mat_none Mat_none = (Inr (), [])"
    by (simp add: demo_prims_def scribble_def Mat_none_def)
  have d: "minMaxLoc demo_prims ()
           = Inr (0, 1, \<lparr>pt_x = 0, pt_y = 0\<rparr>, \<lparr>pt_x = topLeft_x, pt_y = topLeft_y\<rparr>)"
    by (simp add: demo_prims_def topLeft_x_def topLeft_y_def)
  show ?thesis
    using identity_check [OF a b c d] a b c d by auto
qed

section \<open>Rounding to the nearest double\<close>

lemma rne_close: "\<bar>of_int (rne y) - y\<bar> \<le> 1 / 2"
  unfolding rne_def Let_def by (auto simp add: abs_if) linarith+

lemma rne_of_int: "rne (of_int m) = m"
  by (simp add: rne_def)

lemma expo_from_range: "e - int n \<le> expo_from n e x \<and> expo_from n e x \<le> e"
proof (induction n arbitrary: e)
  case 0
  then show ?case by simp
next
  case (Suc n)
  from Suc [of "e - 1"] show ?case by simp
qed

lemma expo_from_lower:
  "e - int n < expo_from n e x \<Longrightarrow> 2 powi (expo_from n e x) \<le> \<bar>x\<bar>"
proof (induction n arbitrary: e)
  case 0
  then show ?case by simp
next
  case (Suc n)
  show ?case
  proof (cases "2 powi e \<le> \<bar>x\<bar>")
    case True
    then show ?thesis by simp
  next
    case False
    with Suc.prems have "e - 1 - int n < expo_from n (e - 1) x" by simp
    from Suc.IH [OF this] False show ?thesis by simp
  qed
qed

lemma expo_from_upper:
  "\<bar>x\<bar> < 2 powi (e + 1) \<Longrightarrow> \<bar>x\<bar> < 2 powi (expo_from n e x + 1)"
proof (induction n arbitrary: e)
  case 0
  then show ?case by simp
next
  case (Suc n)
  show ?case
  proof (cases "2 powi e \<le> \<bar>x\<bar>")
    case True
    with Suc.prems show ?thesis by simp
  next
    case False
    then have "\<bar>x\<bar> < 2 powi (e - 1 + 1)" by simp
    from Suc.IH [OF this] False show ?thesis by simp
  qed
qed

lemma expo_range: "- 1022 \<le> expo x \<and> expo x \<le> 1023"
  using expo_from_range [of 1023 2045 x] by (simp add: expo_def)

lemma expo_lower: "- 1022 < expo x \<Longrightarrow> 2 powi (expo x) \<le> \<bar>x\<bar>"
  using expo_from_lower [of 1023 2045 x] by (simp add: expo_def)

lemma expo_upper: "\<bar>x\<bar> < dbl_limit \<Longrightarrow> \<bar>x\<bar> < 2 powi (expo x + 1)"
  using expo_from_upper [of x 1023 2045] by (simp add: expo_def dbl_limit_def)

lemma fl_exact:
  assumes x: "x = of_int m * 2 powi k"
    and m: "\<bar>m\<bar> < 2 ^ 53"
    and k: "- 1074 \<le> k"
    and r: "\<bar>x\<bar> < dbl_limit"
  shows "fl x = Finite x"
proof (cases "m = 0")
  case True
  with x r show ?thesis by (simp add: fl_def rne_def)
next
  case False
  let ?e = "expo x"
  have le: "?e \<le> k + 52"
  proof (cases "- 1022 < ?e")
    case True
    have "2 powi ?e \<le> \<bar>x\<bar>"
      using True by (rule expo_lower)
    also have "\<bar>x\<bar> = real_of_int \<bar>m\<bar> * 2 powi k"
      by (simp add: x abs_mult)
    also have "\<dots> < 2 ^ 53 * 2 powi k"
    proof -
      have "real_of_int \<bar>m\<bar> < 2 ^ 53"
        using m by (metis of_int_less_iff of_int_numeral of_int_power)
      then show ?thesis by simp
    qed
    also have "\<dots> = (2 :: real) powi (k + 53)"
      by (simp add: power_int_add)
    finally have "(2 :: real) powi ?e < 2 powi (k + 53)" .
    have "?e < k + 53"
    proof (rule ccontr)
      assume "\<not> ?e < k + 53"
      then have "k + 53 \<le> ?e" by simp
      then have "(2 :: real) powi (k + 53) \<le> 2 powi ?e"
        by (intro power_int_increasing) simp_all
      with \<open>(2 :: real) powi ?e < 2 powi (k + 53)\<close> show False by simp
    qed
    then show ?thesis by simp
  next
    case False
    with expo_range [of x] have "?e = - 1022" by simp
    with k show ?thesis by simp
  qed
  define j where "j = nat (k + 52 - ?e)"
  have j: "k - (?e - 52) = int j"
    using le by (simp add: j_def)
  have "x / 2 powi (?e - 52) = of_int m * 2 powi (k - (?e - 52))"
    by (simp add: x power_int_diff)
  also have "\<dots> = of_int (m * 2 ^ j)"
    by (simp add: j)
  finally have q: "x / 2 powi (?e - 52) = of_int (m * 2 ^ j)" .
  have "2 powi (?e - 52) * real_of_int (rne (x / 2 powi (?e - 52))) = x"
    unfolding q rne_of_int using q by (simp add: field_simps)
  then show ?thesis
    using r by (simp add: fl_def Let_def)
qed

lemma fl_error:
  assumes lo: "2 powi (- 1022) \<le> \<bar>x\<bar>" and hi: "\<bar>x\<bar> < 2 ^ 1023"
  shows "\<exists>y. fl x = Finite y \<and> \<bar>y - x\<bar> \<le> \<bar>x\<bar> / 2 ^ 53"
proof -
  let ?e = "expo x"
  let ?q = "(2 :: real) powi (?e - 52)"
  let ?y = "?q * of_int (rne (x / ?q))"
  have qpos: "0 < ?q" by simp
  have low: "2 powi ?e \<le> \<bar>x\<bar>"
  proof (cases "- 1022 < ?e")
    case True
    then show ?thesis by (rule expo_lower)
  next
    case False
    with expo_range [of x] have "?e = - 1022" by simp
    with lo show ?thesis by simp
  qed
  have "?y - x = ?q * (of_int (rne (x / ?q)) - x / ?q)"
    by (simp add: algebra_simps)
  then have "\<bar>?y - x\<bar> = ?q * \<bar>of_int (rne (x / ?q)) - x / ?q\<bar>"
    by (simp add: abs_mult)
  also have "\<dots> \<le> ?q * (1 / 2)"
    using rne_close [of "x / ?q"] by (intro mult_left_mono) simp_all
  also have "\<dots> = 2 powi ?e / 2 ^ 53"
    by (simp add: power_int_diff)
  finally have d: "\<bar>?y - x\<bar> \<le> 2 powi ?e / 2 ^ 53" .
  also have "\<dots> \<le> \<bar>x\<bar> / 2 ^ 53"
    using low by (simp add: divide_right_mono)
  finally have err: "\<bar>?y - x\<bar> \<le> \<bar>x\<bar> / 2 ^ 53" .
  have "\<bar>?y\<bar> \<le> \<bar>x\<bar> + \<bar>?y - x\<bar>"
    by linarith
  also have "\<dots> \<le> \<bar>x\<bar> + \<bar>x\<bar> / 2 ^ 53"
    using err by simp
  also have "\<dots> \<le> \<bar>x\<bar> + \<bar>x\<bar>"
    by (simp add: field_simps)
  also have "\<dots> < dbl_limit"
  proof -
    have "(2 :: real) * 2 ^ 1023 = 2 ^ 1024" by simp
    with hi show ?thesis unfolding dbl_limit_def by linarith
  qed
  finally have "\<bar>?y\<bar> < dbl_limit" .
  then have "fl x = Finite ?y"
    by (simp add: fl_def Let_def)
  with err show ?thesis by blast
qed

lemma below_limit: "\<bar>x\<bar> \<le> 2 ^ 64 \<Longrightarrow> \<bar>x\<bar> < dbl_limit"
proof -
  assume "\<bar>x\<bar> \<le> 2 ^ 64"
  moreover have "(2 :: real) ^ 64 < 2 ^ 1024"
    by (rule power_strict_increasing) simp_all
  ultimately show ?thesis
    unfolding dbl_limit_def by linarith
qed

lemma fl_small:
  assumes x: "x = real_of_int m / 2 ^ j"
    and m: "\<bar>m\<bar> < 2 ^ 53"
    and j: "j \<le> 1074"
  shows "fl x = Finite x"
proof -
  have "real_of_int \<bar>m\<bar> < 2 ^ 53"
    using m by (metis of_int_less_iff of_int_numeral of_int_power)
  moreover have "\<bar>x\<bar> \<le> real_of_int \<bar>m\<bar>"
  proof -
    have "\<bar>real_of_int m\<bar> * 1 \<le> \<bar>real_of_int m\<bar> * 2 ^ j"
      by (intro mult_left_mono) simp_all
    then show ?thesis
      unfolding x by (simp add: abs_divide divide_le_eq)
  qed
  ultimately have "\<bar>x\<bar> \<le> 2 ^ 64" by simp
  then have r: "\<bar>x\<bar> < dbl_limit" by (rule below_limit)
  have "x = real_of_int m * 2 powi (- int j)"
    unfolding x by (simp add: power_int_minus field_simps)
  then show ?thesis
    using m j r by (intro fl_exact [where m = m and k = "- int j"]) simp_all
qed

lemma det_expr_value: "det_expr = Finite (- 66892.125)"
proof -
  have a: "dmul Txx Tyy = Finite (- 66883.375)"
  proof -
    have "fl (Txx * Tyy) = Finite (Txx * Tyy)"
      by (rule fl_small [where m = "- 535067" and j = 3]) (simp_all add: Txx_def Tyy_def)
    then show ?thesis by (simp add: dmul_def Txx_def Tyy_def)
  qed
  have b: "dmul Txy Tyx = Finite 8.75"
  proof -
    have "fl (Txy * Tyx) = Finite (Txy * Tyx)"
      by (rule fl_small [where m = 35 and j = 2]) (simp_all add: Txy_def Tyx_def)
    then show ?thesis by (simp add: dmul_def Txy_def Tyx_def)
  qed
  have c: "dsub (- 66883.375) 8.75 = Finite (- 66892.125)"
  proof -
    have "fl (- 66883.375 - 8.75) = Finite (- 66883.375 - 8.75)"
      by (rule fl_small [where m = "- 535137" and j = 3]) simp_all
    then show ?thesis by (simp add: dsub_def)
  qed
  show ?thesis
    unfolding det_expr_def a b lift2.simps c ..
qed

lemma sint_bounds: "\<bar>sint (k :: c_int)\<bar> \<le> 2 ^ 31"
  using sint_ge [of k] sint_lt [of k] by simp

lemma numerator_col:
  "lift2 dsub (dmul (real_of_int (sint sc)) Tyy) (dmul (real_of_int (sint (sr :: c_int))) Txy)
   = Finite (real_of_int (sint (sc :: c_int)) * Tyy - real_of_int (sint sr) * Txy)"
proof -
  let ?c = "sint sc" and ?r = "sint sr"
  have bc: "\<bar>?c\<bar> \<le> 2 ^ 31" and br: "\<bar>?r\<bar> \<le> 2 ^ 31"
    by (rule sint_bounds)+
  have a: "fl (real_of_int ?c * Tyy) = Finite (real_of_int ?c * Tyy)"
    using bc by (intro fl_small [where m = "521 * ?c" and j = 1]) (simp_all add: Tyy_def)
  have b: "fl (real_of_int ?r * Txy) = Finite (real_of_int ?r * Txy)"
    using br by (intro fl_small [where m = "5 * ?r" and j = 1]) (simp_all add: Txy_def)
  have c: "fl (real_of_int ?c * Tyy - real_of_int ?r * Txy)
           = Finite (real_of_int ?c * Tyy - real_of_int ?r * Txy)"
    using bc br
    by (intro fl_small [where m = "521 * ?c - 5 * ?r" and j = 1])
      (simp_all add: Tyy_def Txy_def field_simps)
  show ?thesis
    unfolding dmul_def a b lift2.simps dsub_def c ..
qed

lemma numerator_row:
  "lift2 dsub (dmul (real_of_int (sint sr)) Txx) (dmul (real_of_int (sint (sc :: c_int))) Tyx)
   = Finite (real_of_int (sint (sr :: c_int)) * Txx - real_of_int (sint sc) * Tyx)"
proof -
  let ?c = "sint sc" and ?r = "sint sr"
  have bc: "\<bar>?c\<bar> \<le> 2 ^ 31" and br: "\<bar>?r\<bar> \<le> 2 ^ 31"
    by (rule sint_bounds)+
  have a: "fl (real_of_int ?r * Txx) = Finite (real_of_int ?r * Txx)"
    using br by (intro fl_small [where m = "- 1027 * ?r" and j = 2]) (simp_all add: Txx_def)
  have b: "fl (real_of_int ?c * Tyx) = Finite (real_of_int ?c * Tyx)"
    using bc by (intro fl_small [where m = "7 * ?c" and j = 1]) (simp_all add: Tyx_def)
  have c: "fl (real_of_int ?r * Txx - real_of_int ?c * Tyx)
           = Finite (real_of_int ?r * Txx - real_of_int ?c * Tyx)"
    using bc br
    by (intro fl_small [where m = "- 1027 * ?r - 14 * ?c" and j = 2])
      (simp_all add: Txx_def Tyx_def field_simps)
  show ?thesis
    unfolding dmul_def a b lift2.simps dsub_def c ..
qed

lemma shift_col_mm_fl:
  "shift_col_mm sr sc
   = fl ((real_of_int (sint sc) * Tyy - real_of_int (sint sr) * Txy) / (- 66892.125))"
proof -
  have "(- 66892.125 :: real) \<noteq> 0" by simp
  then show ?thesis
    unfolding shift_col_mm_def numerator_col det_expr_value lift2.simps ddiv_def
    by (simp only: if_False)
qed

lemma shift_row_mm_fl:
  "shift_row_mm sr sc
   = fl ((real_of_int (sint sr) * Txx - real_of_int (sint sc) * Tyx) / (- 66892.125))"
proof -
  have "(- 66892.125 :: real) \<noteq> 0" by simp
  then show ?thesis
    unfolding shift_row_mm_def numerator_row det_expr_value lift2.simps ddiv_def
    by (simp only: if_False)
qed

lemma fl_quotient:
  assumes x: "x = real_of_int n / 535137" and n: "\<bar>n\<bar> \<le> 2 ^ 45"
  shows "\<exists>y. fl x = Finite y \<and> \<bar>y - x\<bar> \<le> \<bar>x\<bar> / 2 ^ 53"
proof (cases "n = 0")
  case True
  then have "x = real_of_int 0 / 2 ^ 0" by (simp add: x)
  then have "fl x = Finite x"
    by (rule fl_small) simp_all
  then show ?thesis by simp
next
  case False
  then have "1 \<le> \<bar>n\<bar>" by simp
  then have one: "1 \<le> \<bar>real_of_int n\<bar>"
    by (metis of_int_1_le_iff of_int_abs)
  have "(2 :: real) powi (- 1022) \<le> 2 powi (- 20)"
    by (intro power_int_increasing) simp_all
  also have "\<dots> \<le> 1 / 535137"
    by (simp add: power_int_minus)
  also have "\<dots> \<le> \<bar>x\<bar>"
    using one by (simp add: x divide_right_mono)
  finally have lo: "2 powi (- 1022) \<le> \<bar>x\<bar>" .
  have "real_of_int \<bar>n\<bar> \<le> 2 ^ 45"
    using n by (metis of_int_le_iff of_int_numeral of_int_power)
  then have "\<bar>x\<bar> \<le> 2 ^ 45"
    by (simp add: x divide_le_eq)
  moreover have "(2 :: real) ^ 45 < 2 ^ 1023"
    by (rule power_strict_increasing) simp_all
  ultimately have hi: "\<bar>x\<bar> < 2 ^ 1023" by linarith
  from lo hi show ?thesis by (rule fl_error)
qed

lemma col_rounded:
  "\<exists>dx. shift_col_mm sr sc = Finite dx
     \<and> \<bar>dx - (real_of_int (sint sc) * Tyy - real_of_int (sint sr) * Txy) / (- 66892.125)\<bar>
         \<le> \<bar>(real_of_int (sint sc) * Tyy - real_of_int (sint sr) * Txy) / (- 66892.125)\<bar> / 2 ^ 53"
proof -
  have bc: "\<bar>sint sc\<bar> \<le> 2 ^ 31" and br: "\<bar>sint sr\<bar> \<le> 2 ^ 31"
    by (rule sint_bounds)+
  show ?thesis
    unfolding shift_col_mm_fl using bc br
    by (intro fl_quotient [where n = "- 4 * (521 * sint sc - 5 * sint sr)"])
      (simp_all add: Tyy_def Txy_def field_simps)
qed

lemma row_rounded:
  "\<exists>dy. shift_row_mm sr sc = Finite dy
     \<and> \<bar>dy - (real_of_int (sint sr) * Txx - real_of_int (sint sc) * Tyx) / (- 66892.125)\<bar>
         \<le> \<bar>(real_of_int (sint sr) * Txx - real_of_int (sint sc) * Tyx) / (- 66892.125)\<bar> / 2 ^ 53"
proof -
  have bc: "\<bar>sint sc\<bar> \<le> 2 ^ 31" and br: "\<bar>sint sr\<bar> \<le> 2 ^ 31"
    by (rule sint_bounds)+
  show ?thesis
    unfolding shift_row_mm_fl using bc br
    by (intro fl_quotient [where n = "2 * (1027 * sint sr + 14 * sint sc)"])
      (simp_all add: Txx_def Tyx_def field_simps)
qed

lemma expo_unique:
  assumes "- 1022 \<le> e" and "e \<le> 1023" and "2 powi e \<le> \<bar>x\<bar>" and "\<bar>x\<bar> < 2 powi (e + 1)"
  shows "expo x = e"
proof -
  have "\<bar>x\<bar> < 2 powi (1023 + 1)"
  proof -
    have "(2 :: real) powi (e + 1) \<le> 2 powi (1023 + 1)"
      using assms(2) by (intro power_int_increasing) simp_all
    with assms(4) show ?thesis by linarith
  qed
  then have lim: "\<bar>x\<bar> < dbl_limit"
    by (simp add: dbl_limit_def)
  have up: "\<bar>x\<bar> < 2 powi (expo x + 1)"
    using lim by (rule expo_upper)
  have "e < expo x + 1"
  proof (rule ccontr)
    assume "\<not> e < expo x + 1"
    then have "(2 :: real) powi (expo x + 1) \<le> 2 powi e"
      by (intro power_int_increasing) simp_all
    with up assms(3) show False by linarith
  qed
  moreover have "expo x < e + 1"
  proof (rule ccontr)
    assume n: "\<not> expo x < e + 1"
    then have "- 1022 < expo x" using assms(1) by simp
    then have "2 powi expo x \<le> \<bar>x\<bar>" by (rule expo_lower)
    moreover have "(2 :: real) powi (e + 1) \<le> 2 powi expo x"
      using n by (intro power_int_increasing) simp_all
    ultimately show False using assms(4) by linarith
  qed
  ultimately show ?thesis by simp
qed

lemma rne_eval:
  assumes "real_of_int m - 1 / 2 < y" and "y < real_of_int m + 1 / 2"
  shows "rne y = m"
proof (cases "real_of_int m \<le> y")
  case True
  with assms have "\<lfloor>y\<rfloor> = m" by linarith
  with assms show ?thesis by (simp add: rne_def)
next
  case False
  with assms have "\<lfloor>y\<rfloor> = m - 1" by linarith
  with assms show ?thesis by (simp add: rne_def)
qed

lemma fl_eval:
  assumes "- 1022 \<le> e" and "e \<le> 1023" and "2 powi e \<le> \<bar>x\<bar>" and "\<bar>x\<bar> < 2 powi (e + 1)"
    and "real_of_int m - 1 / 2 < x / 2 powi (e - 52)"
    and "x / 2 powi (e - 52) < real_of_int m + 1 / 2"
    and "\<bar>real_of_int m * 2 powi (e - 52)\<bar> < dbl_limit"
  shows "fl x = Finite (real_of_int m * 2 powi (e - 52))"
proof -
  have e: "expo x = e"
    using assms(1-4) by (rule expo_unique)
  have r: "rne (x / 2 powi (e - 52)) = m"
    using assms(5,6) by (rule rne_eval)
  show ?thesis
    using assms(7) by (simp add: fl_def Let_def e r mult.commute)
qed

lemma col_3_5: "shift_col_mm 3 5 = Finite (- 2790002090055195 / 2 ^ 57)"
proof -
  have "fl (- 10360 / 535137) = Finite (real_of_int (- 5580004180110390) * 2 powi (- 6 - 52))"
    by (rule fl_eval) (simp_all add: power_int_minus dbl_limit_def)
  then show ?thesis
    by (simp add: shift_col_mm_fl Tyy_def Txy_def power_int_minus)
qed

lemma row_3_5: "shift_row_mm 3 5 = Finite (6788646012172911 / 2 ^ 59)"
proof -
  have "fl (6302 / 535137) = Finite (real_of_int 6788646012172911 * 2 powi (- 7 - 52))"
    by (rule fl_eval) (simp_all add: power_int_minus dbl_limit_def)
  then show ?thesis
    by (simp add: shift_row_mm_fl Txx_def Tyx_def power_int_minus)
qed

lemma fl_zero: "fl 0 = Finite 0"
  by (rule fl_small [where m = 0 and j = 0]) simp_all

lemma fl_one: "fl 1 = Finite 1"
  by (rule fl_small [where m = 1 and j = 0]) simp_all

section \<open>Pixels to millimetres and back\<close>

text \<open>
  C3, as the claim has it, fails: for the shift of 3 rows and 5 columns lines 198 and
  199 yield the doubles \<open>- 2790002090055195 / 2 ^ 57\<close> and \<open>6788646012172911 / 2 ^ 59\<close>
  (the quotients \<open>- 10360 / 535137\<close> and \<open>6302 / 535137\<close>, rounded), and the forward
  matrix applied to them, even with no rounding of its own, gives back neither 5 nor 3.
\<close>

theorem round_trip_not_exact:
  "shift_col_mm 3 5 = Finite (- 2790002090055195 / 2 ^ 57)
   \<and> shift_row_mm 3 5 = Finite (6788646012172911 / 2 ^ 59)
   \<and> Txx * (- 2790002090055195 / 2 ^ 57) + Txy * (6788646012172911 / 2 ^ 59) \<noteq> 5
   \<and> Tyx * (- 2790002090055195 / 2 ^ 57) + Tyy * (6788646012172911 / 2 ^ 59) \<noteq> 3"
  by (simp add: col_3_5 row_3_5 Txx_def Txy_def Tyx_def Tyy_def)

text \<open>
  C3, amended. With the matrix of the program and any shift of int rows and columns,
  both results are finite, and the forward matrix applied to them (exactly, with no
  rounding of its own) gives back the shift of the columns and the shift of the rows,
  each to within the sum of the magnitudes of the two shifts divided by \<open>2 ^ 53\<close>.
\<close>

theorem round_trip_within_tolerance:
  "\<exists>dx dy. shift_col_mm sr sc = Finite dx \<and> shift_row_mm sr sc = Finite dy
     \<and> \<bar>Txx * dx + Txy * dy - real_of_int (sint sc)\<bar>
         \<le> (\<bar>real_of_int (sint sc)\<bar> + \<bar>real_of_int (sint sr)\<bar>) / 2 ^ 53
     \<and> \<bar>Tyx * dx + Tyy * dy - real_of_int (sint sr)\<bar>
         \<le> (\<bar>real_of_int (sint sc)\<bar> + \<bar>real_of_int (sint sr)\<bar>) / 2 ^ 53"
proof -
  define c where "c = real_of_int (sint sc)"
  define r where "r = real_of_int (sint sr)"
  define X where "X = (c * Tyy - r * Txy) / (- 66892.125)"
  define Y where "Y = (r * Txx - c * Tyx) / (- 66892.125)"
  obtain dx where dx: "shift_col_mm sr sc = Finite dx" and ex: "\<bar>dx - X\<bar> \<le> \<bar>X\<bar> / 2 ^ 53"
    using col_rounded [of sr sc] unfolding X_def c_def r_def by blast
  obtain dy where dy: "shift_row_mm sr sc = Finite dy" and ey: "\<bar>dy - Y\<bar> \<le> \<bar>Y\<bar> / 2 ^ 53"
    using row_rounded [of sr sc] unfolding Y_def c_def r_def by blast
  have bx: "\<bar>X\<bar> * 66892.125 \<le> 260.5 * \<bar>c\<bar> + 2.5 * \<bar>r\<bar>"
  proof -
    have "X * (- 66892.125) = c * 260.5 - r * 2.5"
      by (simp add: X_def Tyy_def Txy_def)
    moreover have "\<bar>X\<bar> * 66892.125 = \<bar>X * (- 66892.125)\<bar>"
      by (simp add: abs_mult)
    ultimately have "\<bar>X\<bar> * 66892.125 = \<bar>c * 260.5 - r * 2.5\<bar>"
      by simp
    also have "\<dots> \<le> \<bar>c * 260.5\<bar> + \<bar>r * 2.5\<bar>"
      by (rule abs_triangle_ineq4)
    finally show ?thesis by (simp add: abs_mult)
  qed
  have by': "\<bar>Y\<bar> * 66892.125 \<le> 256.75 * \<bar>r\<bar> + 3.5 * \<bar>c\<bar>"
  proof -
    have "Y * (- 66892.125) = r * (- 256.75) - c * 3.5"
      by (simp add: Y_def Txx_def Tyx_def)
    moreover have "\<bar>Y\<bar> * 66892.125 = \<bar>Y * (- 66892.125)\<bar>"
      by (simp add: abs_mult)
    ultimately have "\<bar>Y\<bar> * 66892.125 = \<bar>r * (- 256.75) - c * 3.5\<bar>"
      by simp
    also have "\<dots> \<le> \<bar>r * (- 256.75)\<bar> + \<bar>c * 3.5\<bar>"
      by (rule abs_triangle_ineq4)
    finally show ?thesis by (simp add: abs_mult)
  qed
  have fx: "Txx * X + Txy * Y = c"
    by (simp add: X_def Y_def Txx_def Txy_def Tyx_def Tyy_def field_simps)
  have fy: "Tyx * X + Tyy * Y = r"
    by (simp add: X_def Y_def Txx_def Txy_def Tyx_def Tyy_def field_simps)
  have ex': "\<bar>dx - X\<bar> * 2 ^ 53 \<le> \<bar>X\<bar>" and ey': "\<bar>dy - Y\<bar> * 2 ^ 53 \<le> \<bar>Y\<bar>"
    using ex ey by (simp_all add: field_simps)
  have "Txx * dx + Txy * dy - c = Txx * (dx - X) + Txy * (dy - Y)"
    using fx by (simp add: algebra_simps)
  also have "\<bar>\<dots>\<bar> \<le> \<bar>Txx * (dx - X)\<bar> + \<bar>Txy * (dy - Y)\<bar>"
    by (rule abs_triangle_ineq)
  also have "\<dots> = 256.75 * \<bar>dx - X\<bar> + 2.5 * \<bar>dy - Y\<bar>"
    unfolding abs_mult by (simp add: Txx_def Txy_def)
  finally have 1: "\<bar>Txx * dx + Txy * dy - c\<bar> \<le> 256.75 * \<bar>dx - X\<bar> + 2.5 * \<bar>dy - Y\<bar>" .
  have "Tyx * dx + Tyy * dy - r = Tyx * (dx - X) + Tyy * (dy - Y)"
    using fy by (simp add: algebra_simps)
  also have "\<bar>\<dots>\<bar> \<le> \<bar>Tyx * (dx - X)\<bar> + \<bar>Tyy * (dy - Y)\<bar>"
    by (rule abs_triangle_ineq)
  also have "\<dots> = 3.5 * \<bar>dx - X\<bar> + 260.5 * \<bar>dy - Y\<bar>"
    unfolding abs_mult by (simp add: Tyx_def Tyy_def)
  finally have 2: "\<bar>Tyx * dx + Tyy * dy - r\<bar> \<le> 3.5 * \<bar>dx - X\<bar> + 260.5 * \<bar>dy - Y\<bar>" .
  have lin1: "E * 2 ^ 53 \<le> C + R"
    if "E \<le> 256.75 * A + 2.5 * B" and "A * 2 ^ 53 \<le> U" and "B * 2 ^ 53 \<le> V"
      and "U * 66892.125 \<le> 260.5 * C + 2.5 * R" and "V * 66892.125 \<le> 256.75 * R + 3.5 * C"
      and "0 \<le> C" and "0 \<le> R"
    for E A B U V C R :: real
    using that by simp
  have lin2: "E * 2 ^ 53 \<le> C + R"
    if "E \<le> 3.5 * A + 260.5 * B" and "A * 2 ^ 53 \<le> U" and "B * 2 ^ 53 \<le> V"
      and "U * 66892.125 \<le> 260.5 * C + 2.5 * R" and "V * 66892.125 \<le> 256.75 * R + 3.5 * C"
      and "0 \<le> C" and "0 \<le> R"
    for E A B U V C R :: real
    using that by simp
  have c1: "\<bar>Txx * dx + Txy * dy - c\<bar> * 2 ^ 53 \<le> \<bar>c\<bar> + \<bar>r\<bar>"
    by (rule lin1 [OF 1 ex' ey' bx by']) simp_all
  have c2: "\<bar>Tyx * dx + Tyy * dy - r\<bar> * 2 ^ 53 \<le> \<bar>c\<bar> + \<bar>r\<bar>"
    by (rule lin2 [OF 2 ex' ey' bx by']) simp_all
  have "\<bar>Txx * dx + Txy * dy - c\<bar> \<le> (\<bar>c\<bar> + \<bar>r\<bar>) / 2 ^ 53"
    and "\<bar>Tyx * dx + Tyy * dy - r\<bar> \<le> (\<bar>c\<bar> + \<bar>r\<bar>) / 2 ^ 53"
    using c1 c2 by (simp_all add: field_simps)
  with dx dy show ?thesis
    unfolding c_def r_def by blast
qed


section \<open>The mean intensity gradient\<close>

lemma borderInterpolate_in_range:
  assumes "r < n" and "i < 3"
  shows "borderInterpolate (int r + int i - 1) n < n"
  using assms by (auto simp add: borderInterpolate_def)

lemma kernel_sums:
  "(\<Sum>i\<leftarrow>[0..<3]. \<Sum>j\<leftarrow>[0..<3]. deriv_kernel 0 ! i * deriv_kernel 1 ! j * k) = 0"
  "(\<Sum>i\<leftarrow>[0..<3]. \<Sum>j\<leftarrow>[0..<3]. deriv_kernel 1 ! i * deriv_kernel 0 ! j * k) = 0"
  by (simp_all add: deriv_kernel_def upt_rec numeral_3_eq_3)

lemma Sobel_uniform:
  assumes u: "\<forall>r<nrows. \<forall>c<ncols. src ! r ! c = v"
    and o: "(dx, dy) = (1, 0) \<or> (dx, dy) = (0, 1)"
  shows "Sobel src nrows ncols dx dy = replicate nrows (replicate ncols 0)"
proof -
  have cell: "(\<Sum>i\<leftarrow>[0..<3]. \<Sum>j\<leftarrow>[0..<3].
               deriv_kernel dy ! i * deriv_kernel dx ! j *
               uint (src ! borderInterpolate (int r + int i - 1) nrows
                         ! borderInterpolate (int c + int j - 1) ncols)) = 0"
    if r: "r < nrows" and c: "c < ncols" for r c
  proof -
    have px: "src ! borderInterpolate (int r + int i - 1) nrows
                  ! borderInterpolate (int c + int j - 1) ncols = v"
      if "i < 3" and "j < 3" for i j
      using u borderInterpolate_in_range [OF r that(1)] borderInterpolate_in_range [OF c that(2)]
      by blast
    have "(\<Sum>i\<leftarrow>[0..<3]. \<Sum>j\<leftarrow>[0..<3].
               deriv_kernel dy ! i * deriv_kernel dx ! j *
               uint (src ! borderInterpolate (int r + int i - 1) nrows
                         ! borderInterpolate (int c + int j - 1) ncols))
          = (\<Sum>i\<leftarrow>[0..<3]. \<Sum>j\<leftarrow>[0..<3]. deriv_kernel dy ! i * deriv_kernel dx ! j * uint v)"
      by (intro arg_cong [where f = sum_list] map_cong refl) (simp add: px)
    also have "\<dots> = 0"
      using o kernel_sums [of "uint v"] by auto
    finally show ?thesis .
  qed
  have row: "map (\<lambda>c. \<Sum>i\<leftarrow>[0..<3]. \<Sum>j\<leftarrow>[0..<3].
               deriv_kernel dy ! i * deriv_kernel dx ! j *
               uint (src ! borderInterpolate (int r + int i - 1) nrows
                         ! borderInterpolate (int c + int j - 1) ncols)) [0..<ncols]
             = replicate ncols 0" if "r < nrows" for r
    by (rule nth_equalityI) (simp_all add: cell that)
  show ?thesis
    unfolding Sobel_def by (rule nth_equalityI) (simp_all add: row)
qed

lemma magnitude_zero:
  "magnitude (replicate m (replicate n 0)) (replicate m (replicate n 0))
   = replicate m (replicate n 0)"
  by (simp add: magnitude_def zip_replicate map_replicate)

lemma cv_sum_zero: "cv_sum (replicate m (replicate n 0)) = 0"
  by (simp add: cv_sum_def sum_list_replicate)

lemma pixel_count:
  assumes "m * n < 2 ^ 31"
  shows "sint (word_of_nat m * word_of_nat n :: c_int) = int (m * n)"
proof -
  have "(word_of_nat m * word_of_nat n :: c_int) = word_of_int (int (m * n))"
    by simp
  then have "sint (word_of_nat m * word_of_nat n :: c_int) = signed_take_bit 31 (int (m * n))"
    by (simp only: sint_sbintrunc') simp
  also have "\<dots> = int (m * n)"
  proof -
    have "int (m * n) < 2 ^ 31"
      using assms by (metis of_nat_less_iff of_nat_numeral of_nat_power)
    then show ?thesis
      by (simp add: signed_take_bit_int_eq_self_iff del: of_nat_mult)
  qed
  finally show ?thesis .
qed

text \<open>
  C6, as the claim has it, fails: for a uniform frame of 65536 rows and 65536 columns
  the product \<^verbatim>\<open>frame.rows * frame.cols\<close> of two ints is 0, and the quotient of the
  sum 0 by it is no number.
\<close>

theorem mig_frame_of_wrapped_count:
  "\<not> Mat_empty \<lparr>data = Some 0, rows = 65536, cols = 65536, org_y = 0, org_x = 0\<rparr>
   \<and> uniform [replicate 65536 (replicate 65536 7)]
         \<lparr>data = Some 0, rows = 65536, cols = 65536, org_y = 0, org_x = 0\<rparr> 7
   \<and> mig_frame [replicate 65536 (replicate 65536 7)]
         \<lparr>data = Some 0, rows = 65536, cols = 65536, org_y = 0, org_x = 0\<rparr> = NonFinite"
proof -
  let ?m = "\<lparr>data = Some 0, rows = 65536, cols = 65536, org_y = 0, org_x = 0\<rparr>"
  let ?h = "[replicate 65536 (replicate 65536 (7 :: uchar))]"
  have a: "\<not> Mat_empty ?m"
    by (simp add: Mat_empty_def)
  have b: "uniform ?h ?m 7"
    by (simp add: uniform_def pixels_def)
  have u: "\<forall>r<rows ?m. \<forall>c<cols ?m. pixels ?h ?m ! r ! c = 7"
    using b by (simp add: uniform_def)
  have w: "(word_of_nat (rows ?m) * word_of_nat (cols ?m) :: c_int) = 0"
    by simp
  have "mig_frame ?h ?m = NonFinite"
    using a
    by (simp only: mig_frame_def Let_def Sobel_uniform [OF u] magnitude_zero cv_sum_zero w)
      (simp add: ddiv_def)
  with a b show ?thesis by simp
qed

text \<open>
  C6, amended. A frame that is not empty, shows the same intensity at every pixel and
  has a pixel count within the range of \<^verbatim>\<open>int\<close> has the MIG 0: both derivative
  responses vanish at every pixel.
\<close>

theorem mig_frame_uniform:
  assumes "\<not> Mat_empty frame"
    and "uniform h frame v"
    and "rows frame * cols frame < 2 ^ 31"
  shows "mig_frame h frame = Finite 0"
proof -
  have u: "\<forall>r<rows frame. \<forall>c<cols frame. pixels h frame ! r ! c = v"
    using assms(2) by (simp add: uniform_def)
  have n: "rows frame * cols frame \<noteq> 0"
    using assms(1) by (simp add: Mat_empty_def)
  have "real_of_int (sint (word_of_nat (rows frame) * word_of_nat (cols frame) :: c_int)) \<noteq> 0"
    using n pixel_count [OF assms(3)] by simp
  then show ?thesis
    using assms(1)
    by (simp add: mig_frame_def Let_def Sobel_uniform [OF u] magnitude_zero cv_sum_zero ddiv_def
        fl_zero)
qed

theorem mig_frame_uniform_witness:
  "\<not> Mat_empty \<lparr>data = Some 0, rows = 2, cols = 2, org_y = 0, org_x = 0\<rparr>
   \<and> uniform [[[7, 7], [7, 7]]] \<lparr>data = Some 0, rows = 2, cols = 2, org_y = 0, org_x = 0\<rparr> 7
   \<and> mig_frame [[[7, 7], [7, 7]]] \<lparr>data = Some 0, rows = 2, cols = 2, org_y = 0, org_x = 0\<rparr> = Finite 0"
proof -
  let ?m = "\<lparr>data = Some 0, rows = 2, cols = 2, org_y = 0, org_x = 0\<rparr>"
  have a: "\<not> Mat_empty ?m"
    by (simp add: Mat_empty_def)
  have p: "pixels [[[7, 7], [7, 7]]] ?m = [[7, 7], [7, 7]]"
    by (simp add: pixels_def upt_rec numeral_2_eq_2)
  have b: "uniform [[[7, 7], [7, 7]]] ?m 7"
    unfolding uniform_def p by (auto simp add: less_Suc_eq numeral_2_eq_2)
  have c: "rows ?m * cols ?m < 2 ^ 31"
    by simp
  show ?thesis
    using mig_frame_uniform [OF a b c] a b by simp
qed

text \<open>
  C2. On an empty frame \<^verbatim>\<open>mig_frame\<close> returns the number 1, which is also the MIG of
  the 1x4 frame with the pixels 0, 0, 1, 0; and for a file that does not decode the
  body of the loop, when the matching primitive returns on the empty frame as the
  example's does, writes a row with that number as the MIG.
\<close>

theorem mig_frame_empty_returns_one:
  "mig_frame h Mat_none = Finite 1
   \<and> \<not> Mat_empty \<lparr>data = Some 0, rows = 1, cols = 4, org_y = 0, org_x = 0\<rparr>
   \<and> mig_frame [[[0, 0, 1, 0]]] \<lparr>data = Some 0, rows = 1, cols = 4, org_y = 0, org_x = 0\<rparr> = Finite 1
   \<and> csv_files (world_of (frame_body (demo_env\<lparr>decode := (\<lambda>p. None)\<rparr>) ''d'' ''Results.csv''
                                corner1 ''frame_7.png'' world1)) ''Results.csv''
       = Some [Row 0 0 100 (Finite 0) (Finite 0) (Finite 1)]"
proof -
  let ?m = "\<lparr>data = Some 0, rows = 1, cols = 4, org_y = 0, org_x = 0\<rparr>"
  have e: "mig_frame h Mat_none = Finite 1" for h
    by (simp add: mig_frame_def Mat_empty_def Mat_none_def EXIT_FAILURE_def)
  have a: "\<not> Mat_empty ?m"
    by (simp add: Mat_empty_def)
  have p: "pixels [[[0, 0, 1, 0]]] ?m = [[0, 0, 1, 0]]"
    by (simp add: pixels_def upt_rec numeral_eq_Suc)
  have dx: "Sobel [[0, 0, 1, 0]] 1 4 1 0 = [[0, 4, 0, 0]]"
    by (simp add: Sobel_def deriv_kernel_def borderInterpolate_def upt_rec numeral_eq_Suc)
  have dy: "Sobel [[0, 0, 1, 0]] 1 4 0 1 = [[0, 0, 0, 0]]"
    by (simp add: Sobel_def deriv_kernel_def borderInterpolate_def upt_rec numeral_eq_Suc)
  have s: "sqrt 16 = 4"
    using real_sqrt_abs [of 4] by simp
  have m: "cv_sum (magnitude [[0, 4, 0, 0]] [[0, 0, 0, 0]]) = 4"
    by (simp add: cv_sum_def magnitude_def s)
  have f: "mig_frame [[[0, 0, 1, 0]]] ?m = Finite 1"
    using a p dx dy m by (simp add: mig_frame_def Let_def ddiv_def fl_one)
  have d: "shift_col_mm 0 0 = Finite 0 \<and> shift_row_mm 0 0 = Finite 0"
    by (simp add: shift_col_mm_fl shift_row_mm_fl fl_zero)
  have c1: "copyTo [[[1, 2], [3, 4]]] Mat_none = (Mat_none, [[[1, 2], [3, 4]]])"
    by (simp add: copyTo_def Mat_empty_def Mat_none_def)
  have c2: "copyTo [[[1, 2], [3, 4]]] corner1
            = (\<lparr>data = Some 1, rows = 1, cols = 1, org_y = 0, org_x = 0\<rparr>, [[[1, 2], [3, 4]], [[4]]])"
    by (simp add: copyTo_def Mat_empty_def corner1_def pixels_def)
  have r: "csv_files (world_of (frame_body (demo_env\<lparr>decode := (\<lambda>p. None)\<rparr>) ''d'' ''Results.csv''
                                 corner1 ''frame_7.png'' world1)) ''Results.csv''
           = Some [Row 0 0 100 (Finite 0) (Finite 0) (Finite 1)]"
    using d
    by (simp add: frame_body_def imread_def demo_env_def world1_def get_results_def c1 c2
        demo_prims_def e csv_append_def
        c_div_def signed_divide_int_def roi_w_def roi_h_def frameWidth_def frameHeight_def
        Let_def)
  from e a f r show ?thesis by simp
qed


section \<open>The order of the frames\<close>

lemma find_first_of_digit:
  "find_first_of a ''0123456789''
   = (if \<exists>c\<in>set a. isdigit c then Some (length (takeWhile (\<lambda>c. \<not> isdigit c) a)) else None)"
  by (induction a) (auto simp add: isdigit_def)

lemma digit_value_nonneg: "isdigit c \<Longrightarrow> 0 \<le> digit_value c"
  by (auto simp add: isdigit_def digit_value_def)

lemma decimal_nonneg_aux:
  "0 \<le> k \<Longrightarrow> \<forall>c\<in>set ds. isdigit c \<Longrightarrow> 0 \<le> foldl (\<lambda>a c. a * 10 + digit_value c) k ds"
  by (induction ds arbitrary: k) (auto simp add: digit_value_nonneg)

lemma decimal_nonneg: "\<forall>c\<in>set ds. isdigit c \<Longrightarrow> 0 \<le> decimal ds"
  unfolding decimal_def by (rule decimal_nonneg_aux) simp_all

lemma digit_not_space_or_sign:
  "isdigit c \<Longrightarrow> \<not> isspace c \<and> c \<noteq> CHR ''-'' \<and> c \<noteq> CHR ''+''"
  by (auto simp add: isdigit_def isspace_def)

lemma stoi_digit_first:
  assumes "isdigit c" and "decimal (takeWhile isdigit (c # s)) \<le> 2 ^ 31 - 1"
  shows "stoi (c # s) = Inr (decimal (takeWhile isdigit (c # s)))"
proof -
  have "0 \<le> decimal (takeWhile isdigit (c # s))"
    by (rule decimal_nonneg) (auto dest: set_takeWhileD)
  then show ?thesis
    using assms digit_not_space_or_sign [OF assms(1)]
    by (simp add: stoi_def Let_def)
qed

lemma name_index_readable:
  assumes "readable a"
  shows "name_index a = Inr (spec_index a)"
proof -
  from assms have ex: "\<exists>c\<in>set a. isdigit c" and le: "spec_index a \<le> 2 ^ 31 - 1"
    by (simp_all add: readable_def)
  let ?s = "dropWhile (\<lambda>c. \<not> isdigit c) a"
  have ne: "?s \<noteq> []"
    using ex by (simp add: dropWhile_eq_Nil_conv)
  then obtain c s where cs: "?s = c # s"
    by (cases ?s) auto
  have dc: "isdigit c"
    using hd_dropWhile [OF ne] cs by simp
  have sub: "substr a (find_first_of a ''0123456789'') = Inr ?s"
    using ex length_takeWhile_le [of "\<lambda>c. \<not> isdigit c" a]
    by (simp add: find_first_of_digit substr_def dropWhile_eq_drop not_less)
  have "stoi ?s = Inr (decimal (takeWhile isdigit ?s))"
    unfolding cs using dc le cs
    by (intro stoi_digit_first) (simp_all add: spec_index_def first_digit_run_def)
  then show ?thesis
    by (simp add: name_index_def sub spec_index_def first_digit_run_def)
qed

lemma frame_less_name_index:
  "frame_less a b =
     (case name_index a of
        Inl e \<Rightarrow> (case substr a (find_first_of a ''0123456789'') of
                    Inl e' \<Rightarrow> Inl e'
                  | Inr na \<Rightarrow> (case substr b (find_first_of b ''0123456789'') of
                                Inl e' \<Rightarrow> Inl e' | Inr nb \<Rightarrow> Inl e))
      | Inr i \<Rightarrow> (case name_index b of Inl e \<Rightarrow> Inl e | Inr j \<Rightarrow> Inr (i < j)))"
  by (simp add: frame_less_def name_index_def split: sum.splits)

lemma frame_less_readable:
  assumes "readable a" and "readable b"
  shows "frame_less a b = Inr (spec_index a < spec_index b)"
  using name_index_readable [OF assms(1)] name_index_readable [OF assms(2)]
  by (simp add: frame_less_name_index)

lemma sorted_wrt_frame_less:
  assumes "\<forall>a\<in>set ys. readable a"
  shows "sorted_wrt (\<lambda>a b. frame_less b a = Inr False) ys \<longleftrightarrow> sorted (map spec_index ys)"
proof -
  have "sorted_wrt (\<lambda>a b. frame_less b a = Inr False) ys
        \<longleftrightarrow> sorted_wrt (\<lambda>a b. spec_index a \<le> spec_index b) ys"
    using assms
  proof (induction ys)
    case Nil
    then show ?case by simp
  next
    case (Cons y ys)
    then show ?case by (auto simp add: frame_less_readable)
  qed
  then show ?thesis
    by (simp add: sorted_map)
qed

lemma FrameSequencer_readable:
  assumes "\<forall>a\<in>set fs. readable a"
  shows "FrameSequencer fs out \<longleftrightarrow>
           (\<exists>ys. out = Inr ys \<and>
              (if length fs < 2 then ys = fs
               else mset ys = mset fs \<and> sorted (map spec_index ys)))"
proof (cases "length fs < 2")
  case True
  then show ?thesis
    by (auto simp add: FrameSequencer_def sort_outcome_def)
next
  case False
  have nothrow: "\<forall>x\<in>set fs. \<forall>y\<in>set fs. \<not> isl (frame_less x y)"
    using assms by (simp add: frame_less_readable)
  show ?thesis
  proof (cases out)
    case (Inl e)
    have "\<not> (\<exists>x\<in>set fs. \<exists>y\<in>set fs. frame_less x y = Inl e)"
      using nothrow by force
    then show ?thesis
      using False Inl by (simp add: FrameSequencer_def sort_outcome_def)
  next
    case (Inr ys)
    have "sorted_wrt (\<lambda>a b. frame_less b a = Inr False) ys \<longleftrightarrow> sorted (map spec_index ys)"
      if "mset ys = mset fs"
    proof -
      from that have "set ys = set fs" by (rule mset_eq_setD)
      with assms show ?thesis by (intro sorted_wrt_frame_less) simp
    qed
    then show ?thesis
      using False Inr nothrow by (auto simp add: FrameSequencer_def sort_outcome_def)
  qed
qed


lemma FrameSequencer_sorted_perm:
  assumes "\<forall>a\<in>set fs. readable a" and "FrameSequencer fs out"
  shows "\<exists>ys. out = Inr ys \<and> mset ys = mset fs \<and> sorted (map spec_index ys)"
proof -
  from assms obtain ys where ys: "out = Inr ys"
    and c: "if length fs < 2 then ys = fs else mset ys = mset fs \<and> sorted (map spec_index ys)"
    by (auto simp add: FrameSequencer_readable)
  show ?thesis
  proof (cases "length fs < 2")
    case True
    then have "length (map spec_index fs) \<le> 1" by simp
    then have "sorted (map spec_index fs)" by (rule sorted01)
    with True c ys show ?thesis by simp
  next
    case False
    with c ys show ?thesis by simp
  qed
qed

lemma FrameSequencer_total:
  assumes "\<forall>a\<in>set fs. readable a"
  shows "FrameSequencer fs (Inr (if length fs < 2 then fs else sort_key spec_index fs))"
  using assms by (simp add: FrameSequencer_readable)

lemma sorted_perm_unique:
  assumes d: "distinct (map spec_index fs)"
    and xs: "mset xs = mset fs" "sorted (map spec_index xs)"
    and ys: "mset ys = mset fs" "sorted (map spec_index ys)"
  shows "xs = ys"
proof -
  have sx: "set xs = set fs" and sy: "set ys = set fs"
    using xs(1) ys(1) by (auto dest: mset_eq_setD)
  have "mset (map spec_index xs) = mset (map spec_index fs)"
    and "mset (map spec_index ys) = mset (map spec_index fs)"
    using xs(1) ys(1) by simp_all
  then have dx: "distinct (map spec_index xs)" and dy: "distinct (map spec_index ys)"
    using d by (metis mset_eq_imp_distinct_iff)+
  have "inj_on spec_index (set fs)"
    using d by (simp add: distinct_map)
  then have "inj_on spec_index (set xs \<union> set ys)"
    by (simp add: sx sy)
  then show ?thesis
    using xs(2) dx ys(2) dy sx sy by (intro map_sorted_distinct_set_unique) simp_all
qed

lemma eval_index:
  "spec_index ''frame_1.png'' = 1" "spec_index ''frame_01.png'' = 1"
  "spec_index ''frame_0.png'' = 0" "spec_index ''frame_2.png'' = 2"
  "spec_index ''frame_10.png'' = 10"
  by (simp_all add: spec_index_def first_digit_run_def decimal_def digit_value_def isdigit_def)

lemma eval_readable:
  "readable ''frame_1.png''" "readable ''frame_01.png''" "readable ''frame_0.png''"
  "readable ''frame_2.png''" "readable ''frame_10.png''"
  by (simp_all add: readable_def eval_index) (simp_all add: isdigit_def)

text \<open>
  C4, as the claim has it, fails: a name with a digit run beyond the range of
  \<^verbatim>\<open>int\<close> makes \<^verbatim>\<open>std::stoi\<close> throw, and the sort of a list with such a name and
  another yields the exception and no ordered list.
\<close>

theorem FrameSequencer_overflow:
  "(\<exists>c\<in>set ''frame_2147483648.png''. isdigit c)
   \<and> (\<exists>c\<in>set ''frame_0.png''. isdigit c)
   \<and> spec_index ''frame_2147483648.png'' = 2147483648
   \<and> frame_less ''frame_2147483648.png'' ''frame_0.png'' = Inl OutOfRange
   \<and> frame_less ''frame_0.png'' ''frame_2147483648.png'' = Inl OutOfRange
   \<and> FrameSequencer [''frame_2147483648.png'', ''frame_0.png''] (Inl OutOfRange)
   \<and> \<not> (\<exists>ys. FrameSequencer [''frame_2147483648.png'', ''frame_0.png''] (Inr ys))"
proof -
  have i: "spec_index ''frame_2147483648.png'' = 2147483648"
    by (simp add: spec_index_def first_digit_run_def decimal_def digit_value_def isdigit_def)
  have s: "stoi ''2147483648.png'' = Inl OutOfRange"
    by (simp add: stoi_def Let_def isspace_def isdigit_def decimal_def digit_value_def)
  have s0: "stoi ''0.png'' = Inr 0"
    by (simp add: stoi_def Let_def isspace_def isdigit_def decimal_def digit_value_def)
  have a: "frame_less ''frame_2147483648.png'' ''frame_0.png'' = Inl OutOfRange"
    by (simp add: frame_less_def substr_def s s0)
  have b: "frame_less ''frame_0.png'' ''frame_2147483648.png'' = Inl OutOfRange"
    by (simp add: frame_less_def substr_def s s0)
  show ?thesis
    using i a b by (simp add: FrameSequencer_def sort_outcome_def isdigit_def)
qed

text \<open>
  C4, amended. When every name has a digit and its first maximal run of digits denotes
  an \<^verbatim>\<open>int\<close>, the sort has an outcome, the comparator reads that run as the index of
  each name, and every outcome is a permutation of the names in ascending order of the
  index; when the indices are distinct the order is strictly increasing and the same
  list comes out of every order of enumeration of the names.
\<close>

theorem FrameSequencer_sorts:
  assumes "\<forall>a\<in>set fs. readable a"
  shows "(\<exists>out. FrameSequencer fs out)
         \<and> (\<forall>a\<in>set fs. name_index a = Inr (spec_index a))
         \<and> (\<forall>out. FrameSequencer fs out \<longrightarrow>
               (\<exists>ys. out = Inr ys \<and> mset ys = mset fs \<and> sorted (map spec_index ys)
                  \<and> (distinct (map spec_index fs) \<longrightarrow>
                        sorted_wrt (<) (map spec_index ys)
                        \<and> (\<forall>fs' out'. mset fs' = mset fs \<and> FrameSequencer fs' out'
                              \<longrightarrow> out' = Inr ys))))"
proof (intro conjI allI impI)
  show "\<exists>out. FrameSequencer fs out"
    using FrameSequencer_total [OF assms] by blast
  show "\<forall>a\<in>set fs. name_index a = Inr (spec_index a)"
    using assms by (simp add: name_index_readable)
next
  fix out
  assume "FrameSequencer fs out"
  then obtain ys where ys: "out = Inr ys" "mset ys = mset fs" "sorted (map spec_index ys)"
    using FrameSequencer_sorted_perm [OF assms] by blast
  have "sorted_wrt (<) (map spec_index ys) \<and>
        (\<forall>fs' out'. mset fs' = mset fs \<and> FrameSequencer fs' out' \<longrightarrow> out' = Inr ys)"
    if d: "distinct (map spec_index fs)"
  proof (intro conjI allI impI)
    have "mset (map spec_index ys) = mset (map spec_index fs)"
      using ys(2) by simp
    then have "distinct (map spec_index ys)"
      using d by (metis mset_eq_imp_distinct_iff)
    with ys(3) show "sorted_wrt (<) (map spec_index ys)"
      by (simp add: strict_sorted_iff)
  next
    fix fs' out'
    assume a: "mset fs' = mset fs \<and> FrameSequencer fs' out'"
    then have "set fs' = set fs" by (auto dest: mset_eq_setD)
    with assms have r: "\<forall>a\<in>set fs'. readable a" by simp
    from a obtain zs where zs: "out' = Inr zs" "mset zs = mset fs'" "sorted (map spec_index zs)"
      using FrameSequencer_sorted_perm [OF r] by blast
    have "zs = ys"
      using d zs ys a by (intro sorted_perm_unique [of fs]) simp_all
    with zs show "out' = Inr ys" by simp
  qed
  with ys show "\<exists>ys. out = Inr ys \<and> mset ys = mset fs \<and> sorted (map spec_index ys)
                  \<and> (distinct (map spec_index fs) \<longrightarrow>
                        sorted_wrt (<) (map spec_index ys)
                        \<and> (\<forall>fs' out'. mset fs' = mset fs \<and> FrameSequencer fs' out'
                              \<longrightarrow> out' = Inr ys))"
    by blast
qed

theorem FrameSequencer_sorts_witness:
  "readable ''frame_10.png'' \<and> readable ''frame_2.png'' \<and> readable ''frame_0.png''
   \<and> distinct (map spec_index [''frame_10.png'', ''frame_2.png'', ''frame_0.png''])
   \<and> FrameSequencer [''frame_10.png'', ''frame_2.png'', ''frame_0.png'']
        (Inr [''frame_0.png'', ''frame_2.png'', ''frame_10.png''])
   \<and> FrameSequencer [''frame_2.png'', ''frame_0.png'', ''frame_10.png'']
        (Inr [''frame_0.png'', ''frame_2.png'', ''frame_10.png''])
   \<and> \<not> FrameSequencer [''frame_10.png'', ''frame_2.png'', ''frame_0.png'']
        (Inr [''frame_10.png'', ''frame_2.png'', ''frame_0.png''])
   \<and> name_index ''frame_10.png'' = Inr 10"
proof -
  let ?fs = "[''frame_10.png'', ''frame_2.png'', ''frame_0.png'']"
  let ?fs' = "[''frame_2.png'', ''frame_0.png'', ''frame_10.png'']"
  let ?ys = "[''frame_0.png'', ''frame_2.png'', ''frame_10.png'']"
  have r: "\<forall>a\<in>set ?fs. readable a"
    by (simp add: eval_readable)
  have d: "distinct (map spec_index ?fs)"
    by (simp add: eval_index)
  note t = FrameSequencer_sorts [OF r]
  from t obtain out where out: "FrameSequencer ?fs out" by blast
  with t d obtain ys where ys: "out = Inr ys" "mset ys = mset ?fs" "sorted (map spec_index ys)"
    and u: "\<forall>fs' out'. mset fs' = mset ?fs \<and> FrameSequencer fs' out' \<longrightarrow> out' = Inr ys"
    by blast
  have "ys = ?ys"
    using d ys(2,3) by (intro sorted_perm_unique [of ?fs]) (simp_all add: eval_index)
  with out ys(1) have 1: "FrameSequencer ?fs (Inr ?ys)" by simp
  have 2: "FrameSequencer ?fs' (Inr ?ys)"
    using FrameSequencer_total [of ?fs'] eval_readable
    by (simp add: eval_index)
  have 3: "\<not> FrameSequencer ?fs (Inr ?fs)"
  proof
    assume "FrameSequencer ?fs (Inr ?fs)"
    with u have "(Inr ?fs :: exc + string list) = Inr ys" by blast
    with \<open>ys = ?ys\<close> show False by simp
  qed
  have 4: "name_index ''frame_10.png'' = Inr 10"
    using t by (simp add: eval_index)
  show ?thesis
    using 1 2 3 4 d by (simp add: eval_readable)
qed

text \<open>
  C7, as the claim has it, fails: for two names of the same index the outcome that
  swaps them is one the sort may produce.
\<close>

theorem FrameSequencer_reorders_ties:
  "spec_index ''frame_1.png'' = spec_index ''frame_01.png''
   \<and> FrameSequencer [''frame_1.png'', ''frame_01.png''] (Inr [''frame_01.png'', ''frame_1.png''])
   \<and> filter (\<lambda>a. spec_index a = 1) [''frame_01.png'', ''frame_1.png'']
       \<noteq> filter (\<lambda>a. spec_index a = 1) [''frame_1.png'', ''frame_01.png'']"
proof -
  have "frame_less a b = Inr False"
    if "a \<in> {''frame_1.png'', ''frame_01.png''}" and "b \<in> {''frame_1.png'', ''frame_01.png''}" for a b
    using that eval_readable(1,2) eval_index(1,2) by (auto simp add: frame_less_readable)
  then show ?thesis
    by (simp add: FrameSequencer_def sort_outcome_def eval_index)
qed

text \<open>
  C7, amended. For names the comparator can read, the lists the sort may produce are
  exactly the permutations of the names that ascend in the index (the names as they
  are, when there are fewer than two): names of equal index may come out in any order.
\<close>

theorem FrameSequencer_ties_unordered:
  assumes "\<forall>a\<in>set fs. readable a"
  shows "FrameSequencer fs (Inr ys) \<longleftrightarrow>
           (if length fs < 2 then ys = fs
            else mset ys = mset fs \<and> sorted (map spec_index ys))"
  using assms by (simp add: FrameSequencer_readable)

theorem FrameSequencer_ties_unordered_witness:
  "readable ''frame_10.png'' \<and> readable ''frame_2.png'' \<and> readable ''frame_01.png''
   \<and> readable ''frame_1.png''
   \<and> FrameSequencer [''frame_10.png'', ''frame_1.png'', ''frame_2.png'', ''frame_01.png'']
        (Inr [''frame_1.png'', ''frame_01.png'', ''frame_2.png'', ''frame_10.png''])
   \<and> FrameSequencer [''frame_10.png'', ''frame_1.png'', ''frame_2.png'', ''frame_01.png'']
        (Inr [''frame_01.png'', ''frame_1.png'', ''frame_2.png'', ''frame_10.png''])
   \<and> \<not> FrameSequencer [''frame_10.png'', ''frame_1.png'', ''frame_2.png'', ''frame_01.png'']
        (Inr [''frame_10.png'', ''frame_1.png'', ''frame_2.png'', ''frame_01.png''])"
proof -
  let ?fs = "[''frame_10.png'', ''frame_1.png'', ''frame_2.png'', ''frame_01.png'']"
  have r: "\<forall>a\<in>set ?fs. readable a"
    by (simp add: eval_readable)
  show ?thesis
    using FrameSequencer_ties_unordered [OF r] by (simp add: eval_readable eval_index)
qed


section \<open>The template is left as it was cut\<close>

lemma keeps_refl: "keeps h h"
  by (simp add: keeps_def)

lemma keeps_trans: "keeps h h' \<Longrightarrow> keeps h' h'' \<Longrightarrow> keeps h h''"
  by (auto simp add: keeps_def)

lemma keeps_append: "keeps h (h @ bs)"
  by (simp add: keeps_def nth_append)

lemma Mat_in_keeps: "keeps h h' \<Longrightarrow> Mat_in h m \<Longrightarrow> Mat_in h' m"
  by (auto simp add: keeps_def Mat_in_def split: option.splits)

lemma pixels_keeps: "keeps h h' \<Longrightarrow> Mat_in h m \<Longrightarrow> pixels h' m = pixels h m"
  by (auto simp add: keeps_def Mat_in_def pixels_def split: option.splits)

lemma copyTo_keeps: "keeps h (snd (copyTo h m))"
  by (simp add: copyTo_def keeps_refl keeps_append)

lemma copyTo_fresh: "data (fst (copyTo h m)) = Some a \<Longrightarrow> length h \<le> a"
  by (auto simp add: copyTo_def Mat_none_def split: if_splits)

lemma copyTo_in: "Mat_in (snd (copyTo h m)) (fst (copyTo h m))"
  by (simp add: copyTo_def Mat_in_def Mat_none_def)

lemma copyTo_pixels: "pixels (snd (copyTo h m)) (fst (copyTo h m)) = pixels h m"
proof (cases "Mat_empty m")
  case True
  then show ?thesis
    by (auto simp add: copyTo_def Mat_empty_def Mat_none_def pixels_def split: option.splits)
next
  case False
  then obtain a where a: "data m = Some a" and n: "rows m * cols m \<noteq> 0"
    by (auto simp add: Mat_empty_def)
  have "map (\<lambda>r. map (\<lambda>c. pixels h m ! r ! c) [0..<cols m]) [0..<rows m] = pixels h m"
    using a n by (auto simp add: pixels_def intro!: nth_equalityI)
  then show ?thesis
    using False n by (simp add: copyTo_def pixels_def [of "h @ [pixels h m]"])
qed

lemma get_results_world:
  "snd (get_results P w frame roi fw fh width height)
   = w\<lparr>heap := snd (matchTemplate P (snd (copyTo (snd (copyTo (heap w) frame)) roi))
                      (fst (copyTo (heap w) frame))
                      (fst (copyTo (snd (copyTo (heap w) frame)) roi))),
        ncc_calls := ncc_calls w @
          [(pixels (snd (copyTo (snd (copyTo (heap w) frame)) roi)) (fst (copyTo (heap w) frame)),
            pixels (snd (copyTo (snd (copyTo (heap w) frame)) roi))
              (fst (copyTo (snd (copyTo (heap w) frame)) roi)))]\<rparr>"
  by (simp add: get_results_def Let_def split: prod.splits sum.splits)

lemma get_results_keeps:
  assumes t: "touches_only_args P"
  shows "keeps (heap w) (heap (snd (get_results P w frame roi fw fh width height)))"
proof -
  let ?h1 = "snd (copyTo (heap w) frame)"
  let ?cf = "fst (copyTo (heap w) frame)"
  let ?h2 = "snd (copyTo ?h1 roi)"
  let ?cr = "fst (copyTo ?h1 roi)"
  let ?h3 = "snd (matchTemplate P ?h2 ?cf ?cr)"
  have k1: "keeps (heap w) ?h1" and k2: "keeps ?h1 ?h2"
    by (rule copyTo_keeps)+
  have k02: "keeps (heap w) ?h2"
    using k1 k2 by (rule keeps_trans)
  have len: "length ?h2 \<le> length ?h3"
    using t by (simp add: touches_only_args_def)
  have same: "?h3 ! a = ?h2 ! a" if "a < length (heap w)" for a
  proof -
    have "a < length ?h2"
      using that k02 by (simp add: keeps_def)
    moreover have "data ?cf \<noteq> Some a"
      using copyTo_fresh [of "heap w" frame a] that by auto
    moreover have "data ?cr \<noteq> Some a"
      using copyTo_fresh [of ?h1 roi a] that k1 by (auto simp add: keeps_def)
    ultimately show ?thesis
      using t by (simp add: touches_only_args_def)
  qed
  have "keeps (heap w) ?h3"
    using k02 len same by (auto simp add: keeps_def)
  then show ?thesis
    by (simp add: get_results_world)
qed

lemma get_results_calls:
  assumes "Mat_in (heap w) roi"
  shows "ncc_calls (snd (get_results P w frame roi fw fh width height))
         = ncc_calls w @ [(pixels (heap w) frame, pixels (heap w) roi)]"
proof -
  let ?h1 = "snd (copyTo (heap w) frame)"
  let ?cf = "fst (copyTo (heap w) frame)"
  let ?h2 = "snd (copyTo ?h1 roi)"
  let ?cr = "fst (copyTo ?h1 roi)"
  have "pixels ?h2 ?cf = pixels ?h1 ?cf"
    by (rule pixels_keeps [OF copyTo_keeps copyTo_in])
  then have f: "pixels ?h2 ?cf = pixels (heap w) frame"
    by (simp add: copyTo_pixels)
  have "pixels ?h2 ?cr = pixels ?h1 roi"
    by (rule copyTo_pixels)
  then have r: "pixels ?h2 ?cr = pixels (heap w) roi"
    using pixels_keeps [OF copyTo_keeps assms] by simp
  show ?thesis
    by (simp add: get_results_world f r)
qed

lemma imread_keeps: "keeps h (snd (imread E h path))"
  by (simp add: imread_def keeps_refl keeps_append split: option.splits)

lemma frame_body_world:
  "world_of (frame_body E exp_path csv_path roi file_name w)
   = (let w2 = snd (get_results (cv E) (w\<lparr>heap := snd (imread E (heap w) (exp_path @ ''/'' @ file_name))\<rparr>)
                      (fst (imread E (heap w) (exp_path @ ''/'' @ file_name))) roi
                      frameWidth frameHeight roi_w roi_h)
      in case frame_body E exp_path csv_path roi file_name w of
           Next w' \<Rightarrow> w2\<lparr>csv_files := csv_files w'\<rparr>
         | Return c w' \<Rightarrow> w2
         | Throw e w' \<Rightarrow> w2)"
  by (simp add: frame_body_def Let_def csv_append_def split: prod.splits sum.splits)

lemma frame_body_keeps:
  assumes "touches_only_args (cv E)"
  shows "keeps (heap w) (heap (world_of (frame_body E exp_path csv_path roi file_name w)))"
proof -
  let ?w1 = "w\<lparr>heap := snd (imread E (heap w) (exp_path @ ''/'' @ file_name))\<rparr>"
  have "keeps (heap w) (heap ?w1)"
    by (simp add: imread_keeps)
  moreover have "keeps (heap ?w1) (heap (snd (get_results (cv E) ?w1
      (fst (imread E (heap w) (exp_path @ ''/'' @ file_name))) roi frameWidth frameHeight roi_w roi_h)))"
    by (rule get_results_keeps [OF assms])
  ultimately show ?thesis
    by (auto simp add: frame_body_world Let_def split: flow.splits intro: keeps_trans)
qed

lemma frame_body_calls:
  assumes "Mat_in (heap w) roi"
  shows "\<exists>f. ncc_calls (world_of (frame_body E exp_path csv_path roi file_name w))
              = ncc_calls w @ [(f, pixels (heap w) roi)]"
proof -
  let ?w1 = "w\<lparr>heap := snd (imread E (heap w) (exp_path @ ''/'' @ file_name))\<rparr>"
  have k: "keeps (heap w) (heap ?w1)"
    by (simp add: imread_keeps)
  then have "Mat_in (heap ?w1) roi"
    using assms by (rule Mat_in_keeps)
  then have "ncc_calls (snd (get_results (cv E) ?w1
      (fst (imread E (heap w) (exp_path @ ''/'' @ file_name))) roi frameWidth frameHeight roi_w roi_h))
      = ncc_calls ?w1 @ [(pixels (heap ?w1) (fst (imread E (heap w) (exp_path @ ''/'' @ file_name))),
                          pixels (heap ?w1) roi)]"
    by (rule get_results_calls)
  moreover have "pixels (heap ?w1) roi = pixels (heap w) roi"
    using k assms by (rule pixels_keeps)
  ultimately show ?thesis
    by (auto simp add: frame_body_world Let_def split: flow.splits)
qed

lemma frames_loop:
  assumes t: "touches_only_args (cv E)"
  shows "Mat_in (heap w) roi \<Longrightarrow>
         keeps (heap w) (heap (world_of (for_each (frame_body E exp_path csv_path roi) fs w)))
         \<and> (\<exists>new. ncc_calls (world_of (for_each (frame_body E exp_path csv_path roi) fs w))
                    = ncc_calls w @ new \<and> (\<forall>c\<in>set new. snd c = pixels (heap w) roi))"
proof (induction fs arbitrary: w)
  case Nil
  then show ?case by (simp add: keeps_refl)
next
  case (Cons f fs)
  let ?b = "frame_body E exp_path csv_path roi f w"
  have k: "keeps (heap w) (heap (world_of ?b))"
    by (rule frame_body_keeps [OF t])
  obtain g where g: "ncc_calls (world_of ?b) = ncc_calls w @ [(g, pixels (heap w) roi)]"
    using frame_body_calls [OF Cons.prems] by blast
  show ?case
  proof (cases ?b)
    case (Next w')
    have in': "Mat_in (heap w') roi"
      using k Next Cons.prems by (auto intro: Mat_in_keeps)
    have px: "pixels (heap w') roi = pixels (heap w) roi"
      using k Next Cons.prems by (auto intro: pixels_keeps)
    from Cons.IH [OF in'] obtain new where
      k': "keeps (heap w') (heap (world_of (for_each (frame_body E exp_path csv_path roi) fs w')))"
      and n: "ncc_calls (world_of (for_each (frame_body E exp_path csv_path roi) fs w'))
              = ncc_calls w' @ new" "\<forall>c\<in>set new. snd c = pixels (heap w') roi"
      by blast
    have "keeps (heap w) (heap (world_of (for_each (frame_body E exp_path csv_path roi) fs w')))"
      using k Next k' by (auto intro: keeps_trans)
    moreover have "ncc_calls (world_of (for_each (frame_body E exp_path csv_path roi) fs w'))
          = ncc_calls w @ ((g, pixels (heap w) roi) # new)"
      using n(1) g Next by simp
    moreover have "\<forall>c\<in>set ((g, pixels (heap w) roi) # new). snd c = pixels (heap w) roi"
      using n(2) px by simp
    ultimately show ?thesis
      using Next by (simp del: set_simps)
  next
    case (Return c w')
    then show ?thesis
      using k g by simp
  next
    case (Throw e w')
    then show ?thesis
      using k g by simp
  qed
qed

lemma scribble_length: "length (scribble h m) = length h"
  by (simp add: scribble_def split: option.splits)

lemma scribble_other: "data m \<noteq> Some a \<Longrightarrow> scribble h m ! a = h ! a"
  by (auto simp add: scribble_def split: option.splits)

lemma demo_prims_touch: "touches_only_args demo_prims"
  by (simp add: touches_only_args_def demo_prims_def scribble_length scribble_other)

lemma get_roi_in:
  assumes "get_roi h frame width height tlx tly = (Inr roi, h')"
  shows "keeps h h' \<and> Mat_in h' roi"
proof -
  have "h' = snd (copyTo h frame)" and "data roi = data (fst (copyTo h frame))"
    using assms by (auto simp add: get_roi_def Let_def split: prod.splits if_splits)
  then show ?thesis
    using copyTo_keeps [of h frame] copyTo_in [of h frame] by (simp add: Mat_in_def)
qed

text \<open>
  C10. Let the matching primitive write as it likes to the two matrices it is handed.
  Then \<^verbatim>\<open>get_results\<close> leaves the pixels of its frame and of its template as they
  were, and the primitive is called with the pixels of both; the loop over the frames
  of a unit leaves the pixels of the template as they were at its start, and every
  call of the primitive in it gets a template with those pixels. The template
  \<^verbatim>\<open>get_roi\<close> cuts from frame 0 is a matrix of the store the loop starts in.
\<close>

theorem template_never_mutated:
  assumes "touches_only_args (cv E)"
    and "Mat_in (heap w) frame"
    and "Mat_in (heap w) roi"
  shows "pixels (heap (snd (get_results (cv E) w frame roi fw fh width height))) frame
           = pixels (heap w) frame
         \<and> pixels (heap (snd (get_results (cv E) w frame roi fw fh width height))) roi
           = pixels (heap w) roi
         \<and> ncc_calls (snd (get_results (cv E) w frame roi fw fh width height))
           = ncc_calls w @ [(pixels (heap w) frame, pixels (heap w) roi)]
         \<and> pixels (heap (world_of (for_each (frame_body E exp_path csv_path roi) fs w))) roi
           = pixels (heap w) roi
         \<and> (\<exists>new. ncc_calls (world_of (for_each (frame_body E exp_path csv_path roi) fs w))
                    = ncc_calls w @ new \<and> (\<forall>c\<in>set new. snd c = pixels (heap w) roi))
         \<and> (\<forall>h0 frame_0 t h1. get_roi h0 frame_0 roi_w roi_h topLeft_x topLeft_y = (Inr t, h1)
                \<longrightarrow> keeps h0 h1 \<and> Mat_in h1 t)"
proof -
  have k: "keeps (heap w) (heap (snd (get_results (cv E) w frame roi fw fh width height)))"
    by (rule get_results_keeps [OF assms(1)])
  note l = frames_loop [OF assms(1) assms(3), of exp_path csv_path fs]
  show ?thesis
    using pixels_keeps [OF k assms(2)] pixels_keeps [OF k assms(3)]
      get_results_calls [OF assms(3)] l pixels_keeps [OF conjunct1 [OF l] assms(3)] get_roi_in
    by simp
qed

text \<open>
  With the example primitive, which zeroes both matrices it is handed: the copies are
  zeroed, the frame and the template are not.
\<close>

theorem template_never_mutated_witness:
  "touches_only_args (cv demo_env)
   \<and> Mat_in (heap world1) whole1
   \<and> Mat_in (heap world1) corner1
   \<and> pixels (heap world1) whole1 = [[1, 2], [3, 4]]
   \<and> pixels (heap world1) corner1 = [[4]]
   \<and> heap (snd (get_results (cv demo_env) world1 whole1 corner1 frameWidth frameHeight roi_w roi_h))
       = [[[1, 2], [3, 4]], [[0, 0], [0, 0]], [[0]]]
   \<and> pixels (heap (snd (get_results (cv demo_env) world1 whole1 corner1
                           frameWidth frameHeight roi_w roi_h))) whole1 = [[1, 2], [3, 4]]
   \<and> pixels (heap (snd (get_results (cv demo_env) world1 whole1 corner1
                           frameWidth frameHeight roi_w roi_h))) corner1 = [[4]]
   \<and> ncc_calls (snd (get_results (cv demo_env) world1 whole1 corner1
                        frameWidth frameHeight roi_w roi_h)) = [([[1, 2], [3, 4]], [[4]])]
   \<and> pixels (heap (world_of (for_each (frame_body demo_env ''d'' ''Results.csv'' corner1)
                               [''frame_0.png'', ''frame_1.png''] world1))) corner1 = [[4]]
   \<and> (\<exists>new. ncc_calls (world_of (for_each (frame_body demo_env ''d'' ''Results.csv'' corner1)
                                     [''frame_0.png'', ''frame_1.png''] world1)) = new
              \<and> (\<forall>c\<in>set new. snd c = [[4]]))"
proof -
  have t: "touches_only_args (cv demo_env)"
    by (simp add: demo_env_def demo_prims_touch)
  have f: "Mat_in (heap world1) whole1" and r: "Mat_in (heap world1) corner1"
    by (simp_all add: Mat_in_def world1_def whole1_def corner1_def)
  have pf: "pixels (heap world1) whole1 = [[1, 2], [3, 4]]"
    by (simp add: pixels_def world1_def whole1_def upt_rec numeral_2_eq_2)
  have pr: "pixels (heap world1) corner1 = [[4]]"
    by (simp add: pixels_def world1_def corner1_def)
  have c1: "copyTo [[[1, 2], [3, 4]]] whole1
            = (\<lparr>data = Some 1, rows = 2, cols = 2, org_y = 0, org_x = 0\<rparr>,
               [[[1, 2], [3, 4]], [[1, 2], [3, 4]]])"
    using pf by (simp add: copyTo_def Mat_empty_def whole1_def world1_def)
  have c2: "copyTo [[[1, 2], [3, 4]], [[1, 2], [3, 4]]] corner1
            = (\<lparr>data = Some 2, rows = 1, cols = 1, org_y = 0, org_x = 0\<rparr>,
               [[[1, 2], [3, 4]], [[1, 2], [3, 4]], [[4]]])"
    by (simp add: copyTo_def Mat_empty_def corner1_def pixels_def)
  have hp: "heap (snd (get_results (cv demo_env) world1 whole1 corner1
                         frameWidth frameHeight roi_w roi_h))
            = [[[1, 2], [3, 4]], [[0, 0], [0, 0]], [[0]]]"
    by (simp add: get_results_world world1_def c1 c2 demo_env_def demo_prims_def scribble_def)
  have nc: "ncc_calls world1 = []"
    by (simp add: world1_def)
  show ?thesis
    using template_never_mutated [OF t f r, of frameWidth frameHeight roi_w roi_h
        "''d''" "''Results.csv''" "[''frame_0.png'', ''frame_1.png'']"] t f r hp
    by (simp add: pf pr nc)
qed

section \<open>A result file that does not open\<close>

lemma for_each_append:
  "for_each body (xs @ y # ys) w =
     (case for_each body xs w of
        Next w' \<Rightarrow> (case body y w' of
                     Next w'' \<Rightarrow> for_each body ys w''
                   | Return c w'' \<Rightarrow> Return c w''
                   | Throw e w'' \<Rightarrow> Throw e w'')
      | Return c w' \<Rightarrow> Return c w'
      | Throw e w' \<Rightarrow> Throw e w')"
  by (induction xs arbitrary: w) (auto split: flow.splits)

lemma create_folders_keeps:
  "heap (create_folders E w p) = heap w \<and> csv_files (create_folders E w p) = csv_files w
   \<and> ncc_calls (create_folders E w p) = ncc_calls w"
  by (simp add: create_folders_def)

text \<open>
  C9. When the traversal reaches a leaf (the leaves and entries before it having been
  passed without a return or an exception) and the \<^verbatim>\<open>Results.csv\<close> of the leaf does not
  open, \<^verbatim>\<open>recursive_folders\<close> returns \<^verbatim>\<open>EXIT_FAILURE\<close> in the state reached after the
  two \<^verbatim>\<open>create_folders\<close> calls of that leaf: no file is written for the leaf, and
  whatever follows it in its movement directory (\<open>es2\<close>), in its camera directory
  (\<open>ms2\<close>) and in the root (\<open>cs2\<close>) is not looked at.
\<close>

theorem sink_open_failure_ends_run:
  assumes "lookup E root_path
           = Some (Dir n (cs1 @ Dir cam_name (ms1 @ Dir mv_name (es1 @ Dir exp_name imgs # es2) # ms2) # cs2))"
    and "for_each (cam_param_body E root_path) cs1 w = Next wa"
    and "for_each (movement_body E cam_name (root_path @ ''/'' @ cam_name)) ms1 wa = Next wb"
    and "for_each (exp_body E cam_name mv_name ((root_path @ ''/'' @ cam_name) @ ''/'' @ mv_name)) es1 wb
         = Next wc"
    and "\<not> can_open E (''../laser_decorrelation_results/''
                          @ (cam_name @ ''/'' @ mv_name @ ''/'' @ exp_name) @ ''/'' @ ''Results.csv'')"
  shows "recursive_folders E root_path w
         = (Inr EXIT_FAILURE,
            create_folders E
              (create_folders E wc
                 (''../laser_decorrelation_results/'' @ cam_name @ ''/'' @ mv_name @ ''/'' @ exp_name))
              (''../laser_decorrelation_images_ncc/'' @ cam_name @ ''/'' @ mv_name @ ''/'' @ exp_name))
         \<and> csv_files (snd (recursive_folders E root_path w)) = csv_files wc
         \<and> heap (snd (recursive_folders E root_path w)) = heap wc
         \<and> ncc_calls (snd (recursive_folders E root_path w)) = ncc_calls wc"
proof -
  let ?leaf = "Dir exp_name imgs"
  let ?mv = "Dir mv_name (es1 @ ?leaf # es2)"
  let ?cam = "Dir cam_name (ms1 @ ?mv # ms2)"
  let ?w' = "create_folders E
              (create_folders E wc
                 (''../laser_decorrelation_results/'' @ cam_name @ ''/'' @ mv_name @ ''/'' @ exp_name))
              (''../laser_decorrelation_images_ncc/'' @ cam_name @ ''/'' @ mv_name @ ''/'' @ exp_name)"
  have e: "exp_body E cam_name mv_name ((root_path @ ''/'' @ cam_name) @ ''/'' @ mv_name) ?leaf wc
           = Return EXIT_FAILURE ?w'"
    using assms(5) by (simp add: exp_body_def Let_def)
  have m: "movement_body E cam_name (root_path @ ''/'' @ cam_name) ?mv wb = Return EXIT_FAILURE ?w'"
    using assms(4) e by (simp add: movement_body_def for_each_append)
  have c: "cam_param_body E root_path ?cam wa = Return EXIT_FAILURE ?w'"
    using assms(3) m by (simp add: cam_param_body_def for_each_append)
  have "for_each (cam_param_body E root_path) (cs1 @ ?cam # cs2) w = Return EXIT_FAILURE ?w'"
    using assms(2) c by (simp add: for_each_append)
  then have r: "recursive_folders E root_path w = (Inr EXIT_FAILURE, ?w')"
    using assms(1) by (simp add: recursive_folders_def)
  show ?thesis
    unfolding r by (simp add: create_folders_keeps)
qed

text \<open>
  In the example tree the first leaf does not open its file; the second leaf, whose
  file would open, gets none.
\<close>

theorem sink_open_failure_ends_run_witness:
  "lookup demo_env ''../laser_decorrelation_images''
     = Some (Dir ''laser_decorrelation_images''
         ([File ''notes.txt''] @
          Dir ''Gain_1'' ([] @ Dir ''Move_1''
             ([] @ Dir ''Exp_1'' [File ''frame_0.png'', File ''frame_1.png'']
                 # [Dir ''Exp_2'' [File ''frame_0.png'']]) # []) # []))
   \<and> for_each (cam_param_body demo_env ''../laser_decorrelation_images'') [File ''notes.txt''] world0
       = Next world0
   \<and> \<not> can_open demo_env ''../laser_decorrelation_results/Gain_1/Move_1/Exp_1/Results.csv''
   \<and> can_open demo_env ''../laser_decorrelation_results/Gain_1/Move_1/Exp_2/Results.csv''
   \<and> fst (recursive_folders demo_env ''../laser_decorrelation_images'' world0) = Inr EXIT_FAILURE
   \<and> folders (snd (recursive_folders demo_env ''../laser_decorrelation_images'' world0))
       = {''../laser_decorrelation_results/Gain_1/Move_1/Exp_1'',
          ''../laser_decorrelation_images_ncc/Gain_1/Move_1/Exp_1''}
   \<and> csv_files (snd (recursive_folders demo_env ''../laser_decorrelation_images'' world0))
        ''../laser_decorrelation_results/Gain_1/Move_1/Exp_2/Results.csv'' = None
   \<and> heap (snd (recursive_folders demo_env ''../laser_decorrelation_images'' world0)) = []"
proof -
  have l: "lookup demo_env ''../laser_decorrelation_images''
     = Some (Dir ''laser_decorrelation_images''
         ([File ''notes.txt''] @
          Dir ''Gain_1'' ([] @ Dir ''Move_1''
             ([] @ Dir ''Exp_1'' [File ''frame_0.png'', File ''frame_1.png'']
                 # [Dir ''Exp_2'' [File ''frame_0.png'']]) # []) # []))"
    by (simp add: demo_env_def demo_tree_def)
  have a: "for_each (cam_param_body demo_env ''../laser_decorrelation_images'') [File ''notes.txt''] world0
           = Next world0"
    by (simp add: cam_param_body_def)
  have b: "for_each (movement_body demo_env ''Gain_1'' (''../laser_decorrelation_images'' @ ''/'' @ ''Gain_1''))
             [] world0 = Next world0"
    by simp
  have c: "for_each (exp_body demo_env ''Gain_1'' ''Move_1''
             ((''../laser_decorrelation_images'' @ ''/'' @ ''Gain_1'') @ ''/'' @ ''Move_1'')) [] world0
           = Next world0"
    by simp
  have d: "\<not> can_open demo_env (''../laser_decorrelation_results/''
                          @ (''Gain_1'' @ ''/'' @ ''Move_1'' @ ''/'' @ ''Exp_1'') @ ''/'' @ ''Results.csv'')"
    by (simp add: demo_env_def)
  show ?thesis
    using sink_open_failure_ends_run [OF l a b c d] l a
    by (simp add: demo_env_def create_folders_def world0_def insert_commute)
qed

end
